theory Spec2Isabelle
  imports Main "HOL-Library.Word"
begin

section \<open>JavaScript values used by \<open>index.mjs\<close>\<close>

text \<open>
  A JavaScript string is a sequence of UTF-16 code units. The ASCII literals of the source
  are written with \<open>js\<close>.
\<close>

type_synonym code_unit = "16 word"
type_synonym jstring = "code_unit list"

definition js :: "string \<Rightarrow> jstring" where
  "js s = map of_char s"

text \<open>
  \<open>String.prototype.trim\<close> removes the code units of the ECMAScript productions
  WhiteSpace (TAB, VT, FF, ZWNBSP and the Unicode category Zs) and LineTerminator
  (LF, CR, LS, PS) from both ends. All of them lie in the basic plane, so each is one
  code unit.
\<close>

definition is_white_space :: "code_unit \<Rightarrow> bool" where
  "is_white_space c \<longleftrightarrow>
     c = 0x0009 \<or> c = 0x000A \<or> c = 0x000B \<or> c = 0x000C \<or> c = 0x000D \<or>
     c = 0x0020 \<or> c = 0x00A0 \<or> c = 0x1680 \<or> (0x2000 \<le> c \<and> c \<le> 0x200A) \<or>
     c = 0x2028 \<or> c = 0x2029 \<or> c = 0x202F \<or> c = 0x205F \<or> c = 0x3000 \<or>
     c = 0xFEFF"

definition trim :: "jstring \<Rightarrow> jstring" where
  "trim s = rev (dropWhile is_white_space (rev (dropWhile is_white_space s)))"

text \<open>
  \<open>`${n}`\<close> for a non-negative integer \<open>n\<close> below \<open>10^21\<close> is its decimal numeral
  (Number::toString). The hour index and the slot number are such integers.
\<close>

definition digit :: "nat \<Rightarrow> code_unit" where
  "digit d = of_nat (48 + d)"

fun Number_toString :: "nat \<Rightarrow> jstring" where
  "Number_toString n =
     (if n < 10 then [digit n] else Number_toString (n div 10) @ [digit (n mod 10)])"

declare Number_toString.simps [simp del]

text \<open>A thrown value; the code inspects only its \<open>name\<close> (\<open>e?.name\<close>).\<close>

datatype js_error = JsError (err_name: "jstring option")

definition TypeError :: js_error where
  "TypeError = JsError (Some (js ''TypeError''))"

definition ConditionalCheckFailedException :: js_error where
  "ConditionalCheckFailedException = JsError (Some (js ''ConditionalCheckFailedException''))"

text \<open>
  The values \<open>JSON.parse\<close> can return. A number carries its \<open>String(...)\<close> rendering,
  which is all the handler uses of it: the number is falsy exactly when it renders as
  \<open>0\<close> (\<open>0\<close> and \<open>-0\<close>; \<open>JSON.parse\<close> never yields NaN). An object carries its own
  properties.
\<close>

datatype json =
    JNull
  | JBool bool
  | JNumber jstring
  | JString jstring
  | JArray "json list"
  | JObject "(jstring \<times> json) list"

text \<open>
  \<open>body.f\<close> for \<open>f\<close> one of \<open>company\<close>, \<open>name\<close>, \<open>email\<close>, \<open>message\<close>: reading a property
  of \<open>null\<close> throws a TypeError; booleans, numbers, strings and arrays have no property of
  these names (\<open>undefined\<close>, here \<open>None\<close>); an object yields its own property if it has one.
\<close>

fun get_prop :: "json \<Rightarrow> jstring \<Rightarrow> js_error + json option" where
  "get_prop JNull f = Inl TypeError"
| "get_prop (JObject kvs) f = Inr (map_of kvs f)"
| "get_prop v f = Inr None"

text \<open>Truthiness of a parsed value (ToBoolean).\<close>

fun truthy :: "json \<Rightarrow> bool" where
  "truthy JNull = False"
| "truthy (JBool b) = b"
| "truthy (JNumber r) = (r \<noteq> js ''0'')"
| "truthy (JString s) = (s \<noteq> [])"
| "truthy (JArray xs) = True"
| "truthy (JObject kvs) = True"

text \<open>\<open>v || ""\<close> for a property value \<open>v\<close> that may be \<open>undefined\<close>.\<close>

definition or_empty :: "json option \<Rightarrow> json" where
  "or_empty v = (case v of None \<Rightarrow> JString [] | Some x \<Rightarrow> if truthy x then x else JString [])"

text \<open>
  \<open>Array.prototype.join\<close> with the separator \<open>,\<close> over element renderings; it stops at the
  first element whose conversion throws.
\<close>

fun join_comma :: "(js_error + jstring) list \<Rightarrow> js_error + jstring" where
  "join_comma [] = Inr []"
| "join_comma [r] = r"
| "join_comma (r # rs) =
     (case r of
        Inl e \<Rightarrow> Inl e
      | Inr s \<Rightarrow> (case join_comma rs of Inl e \<Rightarrow> Inl e | Inr t \<Rightarrow> Inr (s @ js '','' @ t)))"

text \<open>
  \<open>String(v)\<close>. An array is joined, with \<open>null\<close> elements rendered empty. An object
  renders as \<open>[object Object]\<close> through \<open>Object.prototype.toString\<close>, unless it has an own
  property \<open>toString\<close>: that value is never callable, \<open>valueOf\<close> returns the object
  itself, and the conversion throws a TypeError.
\<close>

fun js_String :: "json \<Rightarrow> js_error + jstring" where
  "js_String JNull = Inr (js ''null'')"
| "js_String (JBool b) = Inr (if b then js ''true'' else js ''false'')"
| "js_String (JNumber r) = Inr r"
| "js_String (JString s) = Inr s"
| "js_String (JArray xs) =
     join_comma (map (\<lambda>x. if x = JNull then Inr [] else js_String x) xs)"
| "js_String (JObject kvs) =
     (if js ''toString'' \<in> fst ` set kvs then Inl TypeError else Inr (js ''[object Object]''))"

text \<open>\<open>String(body.f || "").trim()\<close>\<close>

definition field_text :: "json \<Rightarrow> jstring \<Rightarrow> js_error + jstring" where
  "field_text body f =
     (case get_prop body f of
        Inl e \<Rightarrow> Inl e
      | Inr v \<Rightarrow> (case js_String (or_empty v) of Inl e \<Rightarrow> Inl e | Inr s \<Rightarrow> Inr (trim s)))"

text \<open>\<open>a || b\<close> on strings that may be \<open>undefined\<close>: the empty string is falsy.\<close>

definition js_or :: "jstring option \<Rightarrow> jstring option \<Rightarrow> jstring option" where
  "js_or a b = (case a of None \<Rightarrow> b | Some s \<Rightarrow> if s = [] then b else Some s)"

text \<open>\<open>!s\<close> is false exactly for a defined, non-empty string.\<close>

definition is_set :: "jstring option \<Rightarrow> bool" where
  "is_set a \<longleftrightarrow> (case a of None \<Rightarrow> False | Some s \<Rightarrow> s \<noteq> [])"

section \<open>Configuration, events and the outside world\<close>

text \<open>
  The module-level constants read from \<open>process.env\<close>. \<open>TABLE\<close> and \<open>FROM_EMAIL\<close> are
  \<open>undefined\<close> (\<open>None\<close>) when the variable is not set. \<open>LIMIT\<close> is the integer the loop
  bound \<open>i <= LIMIT\<close> compares against.
\<close>

record config =
  TABLE :: "jstring option"
  LIMIT :: int
  FROM_EMAIL :: "jstring option"
  ALLOWED_ORIGIN :: jstring

record http_context =
  http_method :: "jstring option"
  http_sourceIp :: "jstring option"

record identity_context =
  identity_sourceIp :: "jstring option"

record request_context =
  http :: "http_context option"
  identity :: "identity_context option"

record event =
  requestContext :: "request_context option"
  httpMethod :: "jstring option"
  body :: "jstring option"

record response =
  statusCode :: nat
  headers :: "(jstring \<times> jstring) list"
  response_body :: jstring

text \<open>The \<open>PutItemCommand\<close> of \<open>consume\<close>; its condition is always \<open>attribute_not_exists(pk)\<close>.\<close>

record put_item =
  TableName :: "jstring option"
  pk :: jstring
  ttl :: nat

record send_email =
  FromEmailAddress :: "jstring option"
  ToAddresses :: "jstring list"
  ReplyToAddresses :: "jstring list"
  Subject :: jstring
  Text :: jstring

text \<open>
  What the code does not control: the clock, faults of the two services and
  \<open>JSON.parse\<close>. The \<open>k\<close>-th call of \<open>Date.now()\<close> returns \<open>Date_now k\<close> (milliseconds);
  the \<open>k\<close>-th command sent to DynamoDB (to SES) is rejected with \<open>e\<close> when
  \<open>ddb_fault k = Some e\<close> (\<open>ses_fault k = Some e\<close>).
\<close>

record env =
  Date_now :: "nat \<Rightarrow> nat"
  ddb_fault :: "nat \<Rightarrow> js_error option"
  ses_fault :: "nat \<Rightarrow> js_error option"
  JSON_parse :: "jstring \<Rightarrow> js_error + json"

text \<open>
  The shared state: the rate table (partition key to \<open>ttl\<close> attribute), the number of
  clock readings taken, every command sent to DynamoDB with the error it was rejected
  with (\<open>None\<close> when it was carried out), and every command sent to SES.
\<close>

record world =
  table :: "jstring \<rightharpoonup> nat"
  clock_reads :: nat
  ddb_log :: "(put_item \<times> js_error option) list"
  ses_log :: "send_email list"

definition read_clock :: "env \<Rightarrow> world \<Rightarrow> nat \<times> world" where
  "read_clock en w = (Date_now en (clock_reads w), w\<lparr>clock_reads := Suc (clock_reads w)\<rparr>)"

text \<open>
  \<open>ddb.send\<close> of a conditional put: a fault rejects the command; otherwise the item is
  created when no item has the key, and the command is rejected with
  \<open>ConditionalCheckFailedException\<close> when one has.
\<close>

definition ddb_send :: "env \<Rightarrow> put_item \<Rightarrow> world \<Rightarrow> (js_error + unit) \<times> world" where
  "ddb_send en cmd w =
     (case ddb_fault en (length (ddb_log w)) of
        Some e \<Rightarrow> (Inl e, w\<lparr>ddb_log := ddb_log w @ [(cmd, Some e)]\<rparr>)
      | None \<Rightarrow>
          (case table w (pk cmd) of
             Some t \<Rightarrow>
               (Inl ConditionalCheckFailedException,
                w\<lparr>ddb_log := ddb_log w @ [(cmd, Some ConditionalCheckFailedException)]\<rparr>)
           | None \<Rightarrow>
               (Inr (),
                w\<lparr>table := (table w)(pk cmd \<mapsto> ttl cmd),
                  ddb_log := ddb_log w @ [(cmd, None)]\<rparr>)))"

definition ses_send :: "env \<Rightarrow> send_email \<Rightarrow> world \<Rightarrow> (js_error + unit) \<times> world" where
  "ses_send en cmd w =
     (case ses_fault en (length (ses_log w)) of
        Some e \<Rightarrow> (Inl e, w\<lparr>ses_log := ses_log w @ [cmd]\<rparr>)
      | None \<Rightarrow> (Inr (), w\<lparr>ses_log := ses_log w @ [cmd]\<rparr>))"

section \<open>The rate limiter\<close>

definition corsHeaders :: "config \<Rightarrow> (jstring \<times> jstring) list" where
  "corsHeaders cfg =
     [(js ''Access-Control-Allow-Origin'', ALLOWED_ORIGIN cfg),
      (js ''Access-Control-Allow-Headers'', js ''Content-Type''),
      (js ''Access-Control-Allow-Methods'', js ''POST,OPTIONS''),
      (js ''Vary'', js ''Origin'')]"

definition ipFromEvent :: "event \<Rightarrow> jstring" where
  "ipFromEvent ev =
     (case js_or (Option.bind (Option.bind (requestContext ev) http) http_sourceIp)
                 (Option.bind (Option.bind (requestContext ev) identity) identity_sourceIp) of
        None \<Rightarrow> js ''0.0.0.0''
      | Some s \<Rightarrow> if s = [] then js ''0.0.0.0'' else s)"

definition consume :: "config \<Rightarrow> env \<Rightarrow> jstring \<Rightarrow> nat \<Rightarrow> world \<Rightarrow> (js_error + bool) \<times> world" where
  "consume cfg en key ttlSeconds w =
     (let (ms, w1) = read_clock en w;
          now = ms div 1000;
          cmd = \<lparr>TableName = TABLE cfg, pk = key, ttl = now + ttlSeconds\<rparr>;
          (r, w2) = ddb_send en cmd w1
      in case r of
           Inr u \<Rightarrow> (Inr True, w2)
         | Inl e \<Rightarrow>
             if err_name e = Some (js ''ConditionalCheckFailedException'')
             then (Inr False, w2)
             else (Inl e, w2))"

text \<open>The key \<open>`ip#${ip}#hour#${hour}#slot#${i}`\<close>.\<close>

definition slot_key :: "jstring \<Rightarrow> nat \<Rightarrow> nat \<Rightarrow> jstring" where
  "slot_key ip hour i =
     js ''ip#'' @ ip @ js ''#hour#'' @ Number_toString hour @ js ''#slot#'' @ Number_toString i"

text \<open>The \<open>for\<close> loop of \<open>checkRateLimit\<close>, entered at index \<open>i\<close>.\<close>

function slot_loop ::
  "config \<Rightarrow> env \<Rightarrow> jstring \<Rightarrow> nat \<Rightarrow> nat \<Rightarrow> nat \<Rightarrow> world \<Rightarrow> (js_error + bool) \<times> world" where
  "slot_loop cfg en ip hour ttlSeconds i w =
     (if int i \<le> LIMIT cfg then
        (case consume cfg en (slot_key ip hour i) ttlSeconds w of
           (Inl e, w') \<Rightarrow> (Inl e, w')
         | (Inr True, w') \<Rightarrow> (Inr True, w')
         | (Inr False, w') \<Rightarrow> slot_loop cfg en ip hour ttlSeconds (Suc i) w')
      else (Inr False, w))"
  by pat_completeness auto
termination
  by (relation "measure (\<lambda>(cfg, en, ip, hour, ttlSeconds, i, w). nat (LIMIT cfg + 1 - int i))") auto

declare slot_loop.simps [simp del]

definition checkRateLimit :: "config \<Rightarrow> env \<Rightarrow> jstring \<Rightarrow> world \<Rightarrow> (js_error + bool) \<times> world" where
  "checkRateLimit cfg en ip w =
     (let (ms, w1) = read_clock en w;
          now = ms div 1000;
          hour = now div 3600;
          ttlSeconds = 3700
      in slot_loop cfg en ip hour ttlSeconds 1 w1)"

section \<open>The request handler\<close>

definition reply :: "config \<Rightarrow> nat \<Rightarrow> string \<Rightarrow> response" where
  "reply cfg code text = \<lparr>statusCode = code, headers = corsHeaders cfg, response_body = js text\<rparr>"

text \<open>The \<open>SendEmailCommand\<close> built from the validated fields.\<close>

definition contact_mail :: "config \<Rightarrow> jstring \<Rightarrow> jstring \<Rightarrow> jstring \<Rightarrow> send_email" where
  "contact_mail cfg name email message =
     \<lparr>FromEmailAddress = FROM_EMAIL cfg,
      ToAddresses = [js ''cloudcanvas.team@gmail.com''],
      ReplyToAddresses = [email],
      Subject = js ''New CloudCanvas message from '' @ name,
      Text = message\<rparr>"

text \<open>
  The part of the \<open>try\<close> block after validation: the rate limit, then the dispatch.
\<close>

definition limit_and_send ::
  "config \<Rightarrow> env \<Rightarrow> event \<Rightarrow> jstring \<Rightarrow> jstring \<Rightarrow> jstring \<Rightarrow> world \<Rightarrow>
   (js_error + response) \<times> world" where
  "limit_and_send cfg en ev name email message w =
     (let ip = ipFromEvent ev in
      case checkRateLimit cfg en ip w of
        (Inl e, w1) \<Rightarrow> (Inl e, w1)
      | (Inr isAllowed, w1) \<Rightarrow>
          if \<not> isAllowed then (Inr (reply cfg 429 ''Too many requests''), w1)
          else
            (case ses_send en (contact_mail cfg name email message) w1 of
               (Inl e, w2) \<Rightarrow> (Inl e, w2)
             | (Inr u, w2) \<Rightarrow> (Inr (reply cfg 200 ''OK''), w2)))"

text \<open>
  The \<open>try\<close> block of the handler; \<open>Inl\<close> is a value thrown inside it. The fields are
  converted in the order of the source, so the first conversion that throws decides.
\<close>

text \<open>\<open>event.requestContext?.http?.method || event.httpMethod\<close>\<close>

definition request_method :: "event \<Rightarrow> jstring option" where
  "request_method ev =
     js_or (Option.bind (Option.bind (requestContext ev) http) http_method) (httpMethod ev)"

text \<open>\<open>event.body || "{}"\<close>\<close>

definition request_body :: "event \<Rightarrow> jstring" where
  "request_body ev = (case body ev of None \<Rightarrow> js ''{}'' | Some b \<Rightarrow> if b = [] then js ''{}'' else b)"

definition handler_try :: "config \<Rightarrow> env \<Rightarrow> event \<Rightarrow> world \<Rightarrow> (js_error + response) \<times> world" where
  "handler_try cfg en ev w =
     (if \<not> is_set (TABLE cfg) then (Inr (reply cfg 500 ''RATE_TABLE not set''), w)
      else if \<not> is_set (FROM_EMAIL cfg) then (Inr (reply cfg 500 ''FROM_EMAIL not set''), w)
      else
        (case JSON_parse en (request_body ev) of
           Inl e \<Rightarrow> (Inl e, w)
         | Inr parsed \<Rightarrow>
             (case field_text parsed (js ''company'') of
                Inl e \<Rightarrow> (Inl e, w)
              | Inr company \<Rightarrow>
                  if company \<noteq> [] then (Inr (reply cfg 200 ''OK''), w)
                  else
                    (case field_text parsed (js ''name'') of
                       Inl e \<Rightarrow> (Inl e, w)
                     | Inr name \<Rightarrow>
                         (case field_text parsed (js ''email'') of
                            Inl e \<Rightarrow> (Inl e, w)
                          | Inr email \<Rightarrow>
                              (case field_text parsed (js ''message'') of
                                 Inl e \<Rightarrow> (Inl e, w)
                               | Inr message \<Rightarrow>
                                   if name = [] \<or> email = [] \<or> message = []
                                   then (Inr (reply cfg 400 ''Missing fields''), w)
                                   else limit_and_send cfg en ev name email message w))))))"

definition handler :: "config \<Rightarrow> env \<Rightarrow> event \<Rightarrow> world \<Rightarrow> response \<times> world" where
  "handler cfg en ev w =
     (if request_method ev = Some (js ''OPTIONS'') then (reply cfg 204 [], w)
      else
        (case handler_try cfg en ev w of
           (Inr resp, w') \<Rightarrow> (resp, w')
         | (Inl err, w') \<Rightarrow> (reply cfg 500 ''Server error'', w')))"

section \<open>Concurrent callers\<close>

text \<open>
  A call of \<open>checkRateLimit\<close> touches the shared world only by reading the clock and by
  sending one command at a time. Its execution is therefore a sequence of such atomic
  steps, and calls of several callers (in one process or on several hosts) interleave at
  that grain. A call is at one of these points:
  \<^item> \<open>Called ip\<close>: invoked, nothing done yet;
  \<^item> \<open>AtLoop ip hour i\<close>: at the loop test with index \<open>i\<close>;
  \<^item> \<open>Sending ip hour i cmd\<close>: inside \<open>consume\<close>, the command built, not yet sent;
  \<^item> \<open>Returned ip hour b\<close>: returned \<open>b\<close>;
  \<^item> \<open>Threw ip hour e\<close>: threw \<open>e\<close>.
\<close>

datatype call =
    Called jstring
  | AtLoop jstring nat nat
  | Sending jstring nat nat put_item
  | Returned jstring nat bool
  | Threw jstring nat js_error

fun call_step :: "config \<Rightarrow> env \<Rightarrow> call \<Rightarrow> world \<Rightarrow> call \<times> world" where
  "call_step cfg en (Called ip) w =
     (let (ms, w1) = read_clock en w in (AtLoop ip (ms div 1000 div 3600) 1, w1))"
| "call_step cfg en (AtLoop ip hour i) w =
     (if int i \<le> LIMIT cfg then
        (let (ms, w1) = read_clock en w
         in (Sending ip hour i
               \<lparr>TableName = TABLE cfg, pk = slot_key ip hour i, ttl = ms div 1000 + 3700\<rparr>, w1))
      else (Returned ip hour False, w))"
| "call_step cfg en (Sending ip hour i cmd) w =
     (case ddb_send en cmd w of
        (Inr u, w1) \<Rightarrow> (Returned ip hour True, w1)
      | (Inl e, w1) \<Rightarrow>
          if err_name e = Some (js ''ConditionalCheckFailedException'')
          then (AtLoop ip hour (Suc i), w1)
          else (Threw ip hour e, w1))"
| "call_step cfg en (Returned ip hour b) w = (Returned ip hour b, w)"
| "call_step cfg en (Threw ip hour e) w = (Threw ip hour e, w)"

text \<open>\<open>n\<close> steps of one call on its own.\<close>

fun call_steps :: "config \<Rightarrow> env \<Rightarrow> nat \<Rightarrow> call \<times> world \<Rightarrow> call \<times> world" where
  "call_steps cfg en 0 cw = cw"
| "call_steps cfg en (Suc n) cw = call_steps cfg en n (call_step cfg en (fst cw) (snd cw))"

text \<open>
  A pool of calls over one world. A schedule names, step by step, the call that moves
  next; an index outside the pool moves nothing.
\<close>

definition pool_step :: "config \<Rightarrow> env \<Rightarrow> call list \<times> world \<Rightarrow> nat \<Rightarrow> call list \<times> world" where
  "pool_step cfg en pw k =
     (if k < length (fst pw) then
        (let (c, w1) = call_step cfg en (fst pw ! k) (snd pw) in ((fst pw)[k := c], w1))
      else pw)"

definition run_pool :: "config \<Rightarrow> env \<Rightarrow> nat list \<Rightarrow> call list \<times> world \<Rightarrow> call list \<times> world" where
  "run_pool cfg en sched pw = foldl (pool_step cfg en) pw sched"


text \<open>The final point of a call that ended with the result \<open>r\<close>.\<close>

fun finished :: "jstring \<Rightarrow> nat \<Rightarrow> js_error + bool \<Rightarrow> call" where
  "finished ip h (Inl e) = Threw ip h e"
| "finished ip h (Inr b) = Returned ip h b"




definition created :: "world \<Rightarrow> world \<Rightarrow> jstring set" where
  "created w0 w = {k. table w k \<noteq> None \<and> table w0 k = None}"


section \<open>Notions used in the statements\<close>

text \<open>The hour window that a call of \<open>checkRateLimit\<close> starting in world \<open>w\<close> computes.\<close>

definition hour_at :: "env \<Rightarrow> world \<Rightarrow> nat" where
  "hour_at en w = Date_now en (clock_reads w) div 1000 div 3600"

text \<open>The commands sent to DynamoDB between two worlds, and the keys they probe.\<close>

definition new_cmds :: "world \<Rightarrow> world \<Rightarrow> (put_item \<times> js_error option) list" where
  "new_cmds w w' = drop (length (ddb_log w)) (ddb_log w')"

definition probed :: "world \<Rightarrow> world \<Rightarrow> jstring list" where
  "probed w w' = map (\<lambda>co. pk (fst co)) (new_cmds w w')"

text \<open>No command of DynamoDB is rejected for a reason other than its condition.\<close>

definition no_faults :: "env \<Rightarrow> bool" where
  "no_faults en \<longleftrightarrow> (\<forall>k. ddb_fault en k = None)"


text \<open>
  Two worlds that differ at most in table entries under slot keys of windows other than
  \<open>h\<close>: same clock position, same logs, and every key at which the tables differ is a
  slot key of another window.
\<close>

definition differ_only_in_other_windows :: "nat \<Rightarrow> world \<Rightarrow> world \<Rightarrow> bool" where
  "differ_only_in_other_windows h w1 w2 \<longleftrightarrow>
     clock_reads w1 = clock_reads w2 \<and> ddb_log w1 = ddb_log w2 \<and> ses_log w1 = ses_log w2 \<and>
     (\<forall>k. table w1 k \<noteq> table w2 k \<longrightarrow> (\<exists>ip h' i. h' \<noteq> h \<and> k = slot_key ip h' i))"


text \<open>Two worlds at the same clock position with the same logs whose tables agree on the keys in \<open>K\<close>.\<close>

definition agree_on :: "jstring set \<Rightarrow> world \<Rightarrow> world \<Rightarrow> bool" where
  "agree_on K w1 w2 \<longleftrightarrow>
     clock_reads w1 = clock_reads w2 \<and> ddb_log w1 = ddb_log w2 \<and> ses_log w1 = ses_log w2 \<and>
     (\<forall>k\<in>K. table w1 k = table w2 k)"

section \<open>A small deployment for concrete runs\<close>

text \<open>
  Two requests per hour, a store without faults, a clock that starts in hour 473290 and
  advances one millisecond per reading, an empty table.
\<close>

definition example_config :: config where
  "example_config =
     \<lparr>TABLE = Some (js ''rate''), LIMIT = 2, FROM_EMAIL = Some (js ''noreply@example.com''),
      ALLOWED_ORIGIN = js ''https://example.com''\<rparr>"

definition SyntaxError :: js_error where
  "SyntaxError = JsError (Some (js ''SyntaxError''))"

text \<open>Four request bodies: a full submission, one without a message, one from a bot, one that is not JSON.\<close>

definition body_valid :: jstring where
  \<open>body_valid = js ''{"name":"Ann","email":"ann@example.com","message":"Hi"}''\<close>

definition body_no_message :: jstring where
  \<open>body_no_message = js ''{"name":"Ann","email":"ann@example.com"}''\<close>

definition body_honeypot :: jstring where
  \<open>body_honeypot = js ''{"name":"Ann","company":"Acme"}''\<close>

definition body_garbage :: jstring where
  \<open>body_garbage = js ''name=Ann''\<close>

text \<open>
  \<open>JSON.parse\<close> on these bodies and on \<open>{}\<close>; the concrete runs use no other
  body.
\<close>

definition example_parse :: "jstring \<Rightarrow> js_error + json" where
  "example_parse s =
     (if s = js ''{}'' then Inr (JObject [])
      else if s = body_honeypot then
        Inr (JObject [(js ''name'', JString (js ''Ann'')),
                      (js ''company'', JString (js ''Acme''))])
      else if s = body_no_message then
        Inr (JObject [(js ''name'', JString (js ''Ann'')),
                      (js ''email'', JString (js ''ann@example.com''))])
      else if s = body_valid then
        Inr (JObject [(js ''name'', JString (js ''Ann'')),
                      (js ''email'', JString (js ''ann@example.com'')),
                      (js ''message'', JString (js ''Hi''))])
      else Inl SyntaxError)"

definition example_env :: env where
  "example_env =
     \<lparr>Date_now = (\<lambda>k. 1703844000000 + k), ddb_fault = (\<lambda>k. None), ses_fault = (\<lambda>k. None),
      JSON_parse = example_parse\<rparr>"

definition example_world :: world where
  "example_world = \<lparr>table = Map.empty, clock_reads = 0, ddb_log = [], ses_log = []\<rparr>"

definition example_ip :: jstring where
  "example_ip = js ''203.0.113.10''"

text \<open>The two slot keys of \<open>example_ip\<close> in that hour, and the command that probes a key.\<close>

definition example_key_1 :: jstring where
  "example_key_1 = js ''ip#203.0.113.10#hour#473290#slot#1''"

definition example_key_2 :: jstring where
  "example_key_2 = js ''ip#203.0.113.10#hour#473290#slot#2''"

definition example_put :: "jstring \<Rightarrow> put_item" where
  "example_put k = \<lparr>TableName = Some (js ''rate''), pk = k, ttl = 1703847700\<rparr>"

text \<open>
  The worlds after the first, second and third call of \<open>checkRateLimit\<close> for
  \<open>example_ip\<close>: the first two calls take the two slots, the third is denied.
\<close>

definition example_world_1 :: world where
  "example_world_1 =
     \<lparr>table = [example_key_1 \<mapsto> 1703847700],
      clock_reads = 2,
      ddb_log = [(example_put example_key_1, None)],
      ses_log = []\<rparr>"

definition example_world_2 :: world where
  "example_world_2 =
     \<lparr>table = [example_key_1 \<mapsto> 1703847700, example_key_2 \<mapsto> 1703847700],
      clock_reads = 5,
      ddb_log = [(example_put example_key_1, None),
                 (example_put example_key_1, Some ConditionalCheckFailedException),
                 (example_put example_key_2, None)],
      ses_log = []\<rparr>"

definition example_world_3 :: world where
  "example_world_3 =
     \<lparr>table = [example_key_1 \<mapsto> 1703847700, example_key_2 \<mapsto> 1703847700],
      clock_reads = 8,
      ddb_log = [(example_put example_key_1, None),
                 (example_put example_key_1, Some ConditionalCheckFailedException),
                 (example_put example_key_2, None),
                 (example_put example_key_1, Some ConditionalCheckFailedException),
                 (example_put example_key_2, Some ConditionalCheckFailedException)],
      ses_log = []\<rparr>"

text \<open>A fresh world whose table still holds the two slots that \<open>example_ip\<close> took in the hour before.\<close>

definition previous_hour_world :: world where
  "previous_hour_world =
     \<lparr>table = [js ''ip#203.0.113.10#hour#473289#slot#1'' \<mapsto> 1703844100,
               js ''ip#203.0.113.10#hour#473289#slot#2'' \<mapsto> 1703844100],
      clock_reads = 0, ddb_log = [], ses_log = []\<rparr>"


text \<open>A request of method POST with the given source address (HTTP API format) and body.\<close>

definition post_from :: "jstring option \<Rightarrow> jstring option \<Rightarrow> event" where
  "post_from ip b =
     \<lparr>requestContext =
        Some \<lparr>http = Some \<lparr>http_method = Some (js ''POST''), http_sourceIp = ip\<rparr>,
              identity = None\<rparr>,
      httpMethod = None, body = b\<rparr>"

text \<open>The same deployment with a store whose first command fails with a service fault.\<close>

definition InternalServerError :: js_error where
  "InternalServerError = JsError (Some (js ''InternalServerError''))"

definition faulty_env :: env where
  "faulty_env =
     \<lparr>Date_now = (\<lambda>k. 1703844000000 + k),
      ddb_fault = (\<lambda>k. if k = 0 then Some InternalServerError else None),
      ses_fault = (\<lambda>k. None), JSON_parse = example_parse\<rparr>"

text \<open>The world after that fault.\<close>

definition faulty_world_1 :: world where
  "faulty_world_1 =
     \<lparr>table = Map.empty,
      clock_reads = 2,
      ddb_log = [(example_put example_key_1, Some InternalServerError)],
      ses_log = []\<rparr>"


text \<open>
  A submission whose \<open>name\<close> is empty and whose \<open>email\<close> is an object with an own
  property \<open>toString\<close>, what \<open>JSON.parse\<close> returns for it, and the example deployment with
  \<open>JSON.parse\<close> extended to this body.
\<close>

definition body_bad_email :: jstring where
  \<open>body_bad_email = js ''{"name":"","email":{"toString":1},"message":"Hi"}''\<close>

definition parsed_bad_email :: json where
  "parsed_bad_email =
     JObject [(js ''name'', JString []),
              (js ''email'', JObject [(js ''toString'', JNumber (js ''1''))]),
              (js ''message'', JString (js ''Hi''))]"

definition bad_email_env :: env where
  "bad_email_env =
     \<lparr>Date_now = (\<lambda>k. 1703844000000 + k), ddb_fault = (\<lambda>k. None), ses_fault = (\<lambda>k. None),
      JSON_parse = (\<lambda>s. if s = body_bad_email then Inr parsed_bad_email else example_parse s)\<rparr>"

text \<open>
  Three calls for \<open>example_ip\<close> that race: the schedule moves them in turn, so that all
  three read the clock and build the command for slot 1 before any of them sends it.
\<close>

definition race_schedule :: "nat list" where
  "race_schedule =
     [0, Suc 0, Suc (Suc 0), 0, Suc 0, Suc (Suc 0), 0, Suc 0, Suc (Suc 0),
      Suc 0, Suc (Suc 0), Suc 0, Suc (Suc 0), Suc (Suc 0)]"

section \<open>Strings and slot keys\<close>

lemma digit_unat: "d < 10 \<Longrightarrow> unat (digit d) = 48 + d"
  unfolding digit_def by (subst unat_of_nat) simp

lemma digit_inj:
  assumes "d < 10" "d' < 10" "digit d = digit d'"
  shows "d = d'"
proof -
  from assms(3) have "unat (digit d) = unat (digit d')" by (rule arg_cong)
  with assms(1,2) show ?thesis by (simp only: digit_unat)
qed

lemma digit_not_hash:
  assumes "d < 10"
  shows "digit d \<noteq> 35"
proof
  assume "digit d = 35"
  then have "unat (digit d) = unat (35 :: code_unit)" by (rule arg_cong)
  with assms show False by (simp only: digit_unat) simp
qed

lemma Number_toString_not_Nil: "Number_toString n \<noteq> []"
  by (subst Number_toString.simps) simp

lemma Number_toString_no_hash: "35 \<notin> set (Number_toString n)"
proof (induction n rule: Number_toString.induct)
  case (1 n)
  show ?case
  proof (cases "n < 10")
    case True
    then show ?thesis
      using digit_not_hash [of n] by (subst Number_toString.simps) auto
  next
    case False
    have "n mod 10 < 10" by simp
    then have "digit (n mod 10) \<noteq> 35" by (rule digit_not_hash)
    with False 1 show ?thesis
      by (subst Number_toString.simps) auto
  qed
qed

lemma Number_toString_inj: "Number_toString m = Number_toString n \<Longrightarrow> m = n"
proof (induction m arbitrary: n rule: Number_toString.induct)
  case (1 m)
  show ?case
  proof (cases "m < 10")
    case m: True
    show ?thesis
    proof (cases "n < 10")
      case True
      with m 1(2) have "digit m = digit n"
        by (simp add: Number_toString.simps [of m] Number_toString.simps [of n])
      then show ?thesis by (rule digit_inj [OF m True])
    next
      case False
      with m 1(2) show ?thesis
        using Number_toString_not_Nil [of "n div 10"]
        by (simp add: Number_toString.simps [of m] Number_toString.simps [of n])
    qed
  next
    case m: False
    show ?thesis
    proof (cases "n < 10")
      case True
      with m 1(2) show ?thesis
        using Number_toString_not_Nil [of "m div 10"]
        by (simp add: Number_toString.simps [of m] Number_toString.simps [of n])
    next
      case False
      with m 1(2) have eq: "Number_toString (m div 10) = Number_toString (n div 10)"
        and d: "digit (m mod 10) = digit (n mod 10)"
        by (simp_all add: Number_toString.simps [of m] Number_toString.simps [of n])
      from 1(1) [OF m eq] have q: "m div 10 = n div 10" .
      have r: "m mod 10 = n mod 10"
        by (rule digit_inj [OF _ _ d]) simp_all
      have "m = 10 * (m div 10) + m mod 10" by (rule mult_div_mod_eq [symmetric])
      also have "\<dots> = 10 * (n div 10) + n mod 10" by (simp only: q r)
      also have "\<dots> = n" by (rule mult_div_mod_eq)
      finally show ?thesis .
    qed
  qed
qed

lemma split_at_first:
  "c \<notin> set xs \<Longrightarrow> c \<notin> set ys \<Longrightarrow> xs @ c # p = ys @ c # q \<Longrightarrow> xs = ys \<and> p = q"
proof (induction xs arbitrary: ys)
  case Nil
  then show ?case by (cases ys) simp_all
next
  case (Cons x xs)
  show ?case
  proof (cases ys)
    case Nil
    with Cons.prems show ?thesis by simp
  next
    case ys: (Cons y zs)
    with Cons.prems have "x = y" and "xs @ c # p = zs @ c # q"
      and "c \<notin> set xs" and "c \<notin> set zs"
      by simp_all
    with Cons.IH [of zs] ys show ?thesis by simp
  qed
qed

lemma split_at_last:
  assumes "c \<notin> set xs" "c \<notin> set ys" "p @ c # xs = q @ c # ys"
  shows "p = q \<and> xs = ys"
proof -
  from assms(3) have "rev (p @ c # xs) = rev (q @ c # ys)" by simp
  then have "rev xs @ c # rev p = rev ys @ c # rev q" by simp
  moreover have "c \<notin> set (rev xs)" "c \<notin> set (rev ys)" using assms by simp_all
  ultimately have "rev xs = rev ys \<and> rev p = rev q"
    by (rule split_at_first [rotated 2])
  then show ?thesis by simp
qed

lemma js_hour: "js ''#hour#'' = js ''#hour'' @ [35]"
  by (simp add: js_def)

lemma js_slot: "js ''#slot#'' = js ''#slot'' @ [35]"
  by (simp add: js_def)

lemma slot_key_inj:
  assumes "slot_key ip h i = slot_key ip' h' i'"
  shows "ip = ip' \<and> h = h' \<and> i = i'"
proof -
  let ?P = "\<lambda>ip h. js ''ip#'' @ ip @ js ''#hour#'' @ Number_toString h @ js ''#slot''"
  from assms have "?P ip h @ 35 # Number_toString i = ?P ip' h' @ 35 # Number_toString i'"
    by (simp add: slot_key_def js_slot)
  then have a: "?P ip h = ?P ip' h'" and i: "Number_toString i = Number_toString i'"
    using split_at_last [OF Number_toString_no_hash Number_toString_no_hash] by blast+
  let ?Q = "\<lambda>ip. js ''ip#'' @ ip @ js ''#hour''"
  from a have "?Q ip @ 35 # Number_toString h = ?Q ip' @ 35 # Number_toString h'"
    by (simp add: js_hour)
  then have "?Q ip = ?Q ip'" and h: "Number_toString h = Number_toString h'"
    using split_at_last [OF Number_toString_no_hash Number_toString_no_hash] by blast+
  then have "ip = ip'" by simp
  with Number_toString_inj [OF i] Number_toString_inj [OF h] show ?thesis by blast
qed

section \<open>One conditional write and the loop over the slots\<close>

lemma consume_eq:
  "consume cfg en key t w =
     (let w1 = w\<lparr>clock_reads := Suc (clock_reads w)\<rparr>;
          cmd = \<lparr>TableName = TABLE cfg, pk = key, ttl = Date_now en (clock_reads w) div 1000 + t\<rparr>
      in case ddb_fault en (length (ddb_log w)) of
           Some e \<Rightarrow>
             (if err_name e = Some (js ''ConditionalCheckFailedException'') then Inr False else Inl e,
              w1\<lparr>ddb_log := ddb_log w @ [(cmd, Some e)]\<rparr>)
         | None \<Rightarrow>
             (case table w key of
                Some v \<Rightarrow>
                  (Inr False, w1\<lparr>ddb_log := ddb_log w @ [(cmd, Some ConditionalCheckFailedException)]\<rparr>)
              | None \<Rightarrow>
                  (Inr True,
                   w1\<lparr>table := (table w)(key \<mapsto> ttl cmd), ddb_log := ddb_log w @ [(cmd, None)]\<rparr>)))"
  by (simp add: consume_def read_clock_def ddb_send_def Let_def ConditionalCheckFailedException_def
      split: option.splits)

lemma slot_loop_stop:
  "\<not> int i \<le> LIMIT cfg \<Longrightarrow> slot_loop cfg en ip hour t i w = (Inr False, w)"
  by (simp add: slot_loop.simps)

lemma slot_loop_step:
  "int i \<le> LIMIT cfg \<Longrightarrow>
   slot_loop cfg en ip hour t i w =
     (case consume cfg en (slot_key ip hour i) t w of
        (Inr False, w1) \<Rightarrow> slot_loop cfg en ip hour t (Suc i) w1
      | (r, w1) \<Rightarrow> (r, w1))"
  by (subst slot_loop.simps) (simp split: prod.splits sum.splits bool.splits)


lemma consume_cases [case_names created taken thrown]:
  fixes cfg en key t w
  defines "cmd \<equiv> \<lparr>TableName = TABLE cfg, pk = key, ttl = Date_now en (clock_reads w) div 1000 + t\<rparr>"
  obtains
    (created) w1 where "consume cfg en key t w = (Inr True, w1)"
      and "ddb_fault en (length (ddb_log w)) = None" and "table w key = None"
      and "table w1 = (table w)(key \<mapsto> Date_now en (clock_reads w) div 1000 + t)"
      and "ddb_log w1 = ddb_log w @ [(cmd, None)]"
      and "clock_reads w1 = Suc (clock_reads w)" and "ses_log w1 = ses_log w"
  | (taken) e w1 where "consume cfg en key t w = (Inr False, w1)"
      and "err_name e = Some (js ''ConditionalCheckFailedException'')"
      and "ddb_fault en (length (ddb_log w)) = Some e \<or>
           ddb_fault en (length (ddb_log w)) = None \<and> table w key \<noteq> None"
      and "table w1 = table w"
      and "ddb_log w1 = ddb_log w @ [(cmd, Some e)]"
      and "clock_reads w1 = Suc (clock_reads w)" and "ses_log w1 = ses_log w"
  | (thrown) e w1 where "consume cfg en key t w = (Inl e, w1)"
      and "err_name e \<noteq> Some (js ''ConditionalCheckFailedException'')"
      and "ddb_fault en (length (ddb_log w)) = Some e"
      and "table w1 = table w"
      and "ddb_log w1 = ddb_log w @ [(cmd, Some e)]"
      and "clock_reads w1 = Suc (clock_reads w)" and "ses_log w1 = ses_log w"
proof (cases "ddb_fault en (length (ddb_log w))")
  case None
  show ?thesis
  proof (cases "table w key")
    case n: None
    show ?thesis
      by (rule created [of "w\<lparr>clock_reads := Suc (clock_reads w),
            table := (table w)(key \<mapsto> Date_now en (clock_reads w) div 1000 + t),
            ddb_log := ddb_log w @ [(cmd, None)]\<rparr>"])
        (simp_all add: consume_eq None n cmd_def)
  next
    case (Some v)
    show ?thesis
      by (rule taken [of "w\<lparr>clock_reads := Suc (clock_reads w),
            ddb_log := ddb_log w @ [(cmd, Some ConditionalCheckFailedException)]\<rparr>"
            ConditionalCheckFailedException])
        (simp_all add: consume_eq None Some cmd_def ConditionalCheckFailedException_def)
  qed
next
  case (Some e)
  show ?thesis
  proof (cases "err_name e = Some (js ''ConditionalCheckFailedException'')")
    case True
    show ?thesis
      by (rule taken [of "w\<lparr>clock_reads := Suc (clock_reads w),
            ddb_log := ddb_log w @ [(cmd, Some e)]\<rparr>" e])
        (simp_all add: consume_eq Some True cmd_def)
  next
    case False
    show ?thesis
      by (rule thrown [of e "w\<lparr>clock_reads := Suc (clock_reads w),
            ddb_log := ddb_log w @ [(cmd, Some e)]\<rparr>"])
        (simp_all add: consume_eq Some False cmd_def)
  qed
qed

lemma slot_loop_induct [case_names stop step]:
  assumes stop: "\<And>i w. \<not> int i \<le> LIMIT cfg \<Longrightarrow> P i w"
    and step: "\<And>i w. int i \<le> LIMIT cfg \<Longrightarrow>
                 (\<And>w1. consume cfg en (slot_key ip hour i) t w = (Inr False, w1) \<Longrightarrow> P (Suc i) w1)
                 \<Longrightarrow> P i w"
  shows "P i w"
proof (induction "nat (LIMIT cfg + 1 - int i)" arbitrary: i w)
  case 0
  then have "\<not> int i \<le> LIMIT cfg" by simp
  then show ?case by (rule stop)
next
  case (Suc n)
  then have le: "int i \<le> LIMIT cfg" and n: "n = nat (LIMIT cfg + 1 - int (Suc i))"
    by simp_all
  show ?case
    by (rule step [OF le]) (rule Suc.hyps(1) [OF n])
qed

lemma checkRateLimit_eq:
  "checkRateLimit cfg en ip w =
     slot_loop cfg en ip (hour_at en w) 3700 1 (w\<lparr>clock_reads := Suc (clock_reads w)\<rparr>)"
  by (simp add: checkRateLimit_def read_clock_def hour_at_def)

lemma new_cmds_append: "ddb_log w' = ddb_log w @ new \<Longrightarrow> new_cmds w w' = new"
  by (simp add: new_cmds_def)

lemma slot_loop_frame:
  "slot_loop cfg en ip hour t i w = (r, w') \<Longrightarrow>
   ses_log w' = ses_log w \<and> clock_reads w \<le> clock_reads w' \<and>
   (\<exists>new. ddb_log w' = ddb_log w @ new)"
proof (induction i w rule: slot_loop_induct [where cfg = cfg and en = en and ip = ip and hour = hour and t = t])
  case (stop i w)
  then show ?case by (simp add: slot_loop_stop)
next
  case (step i w)
  show ?case
  proof (cases rule: consume_cases [where en = en and w = w and cfg = cfg
        and key = "slot_key ip hour i" and t = t])
    case (created w1)
    with step.prems step.hyps(1) show ?thesis
      by (simp add: slot_loop_step)
  next
    case (taken e w1)
    from step.prems(1) step.hyps(1) taken(1)
    have "slot_loop cfg en ip hour t (Suc i) w1 = (r, w')"
      by (simp add: slot_loop_step)
    from step.IH [OF taken(1) this] taken show ?thesis
      by auto
  next
    case (thrown e w1)
    with step.prems step.hyps(1) show ?thesis
      by (simp add: slot_loop_step)
  qed
qed

lemma slot_loop_log:
  "slot_loop cfg en ip hour t i w = (r, w') \<Longrightarrow> ddb_log w' = ddb_log w @ new_cmds w w'"
  using slot_loop_frame [of cfg en ip hour t i w r w'] by (auto simp add: new_cmds_def)

text \<open>Effect on the table.\<close>

lemma slot_loop_table:
  "slot_loop cfg en ip hour t i w = (r, w') \<Longrightarrow>
   (r = Inr True \<and> clock_reads w < clock_reads w' \<and>
    (\<exists>j. i \<le> j \<and> int j \<le> LIMIT cfg \<and> table w (slot_key ip hour j) = None \<and>
         table w' = (table w)(slot_key ip hour j \<mapsto> Date_now en (clock_reads w' - 1) div 1000 + t)))
   \<or> (r \<noteq> Inr True \<and> table w' = table w)"
proof (induction i w rule: slot_loop_induct [where cfg = cfg and en = en and ip = ip and hour = hour and t = t])
  case (stop i w)
  then have "r = Inr False" and "w' = w" by (simp_all add: slot_loop_stop)
  then show ?case by simp
next
  case (step i w)
  show ?case
  proof (cases rule: consume_cases [where en = en and w = w and cfg = cfg
        and key = "slot_key ip hour i" and t = t])
    case (created w1)
    from step.prems(1) step.hyps(1) created(1) have "r = Inr True" and "w' = w1"
      by (simp_all add: slot_loop_step)
    with created step.hyps(1) show ?thesis
      by (intro disjI1 conjI exI [of _ i]) simp_all
  next
    case (taken e w1)
    from step.prems(1) step.hyps(1) taken(1)
    have "slot_loop cfg en ip hour t (Suc i) w1 = (r, w')"
      by (simp add: slot_loop_step)
    from step.IH [OF taken(1) this] show ?thesis
    proof
      assume "r = Inr True \<and> clock_reads w1 < clock_reads w' \<and>
        (\<exists>j. Suc i \<le> j \<and> int j \<le> LIMIT cfg \<and> table w1 (slot_key ip hour j) = None \<and>
             table w' = (table w1)(slot_key ip hour j \<mapsto> Date_now en (clock_reads w' - 1) div 1000 + t))"
      then obtain j where "r = Inr True" "clock_reads w1 < clock_reads w'"
        "Suc i \<le> j" "int j \<le> LIMIT cfg"
        "table w1 (slot_key ip hour j) = None"
        "table w' = (table w1)(slot_key ip hour j \<mapsto> Date_now en (clock_reads w' - 1) div 1000 + t)"
        by blast
      with taken(4) taken(6) show ?thesis
        by (intro disjI1 conjI exI [of _ j]) simp_all
    next
      assume "r \<noteq> Inr True \<and> table w' = table w1"
      with taken(4) show ?thesis by simp
    qed
  next
    case (thrown e w1)
    from step.prems(1) step.hyps(1) thrown(1) have "r = Inl e" and "w' = w1"
      by (simp_all add: slot_loop_step)
    with thrown(4) show ?thesis by simp
  qed
qed

text \<open>Every command the loop sends.\<close>

lemma slot_loop_entries:
  "slot_loop cfg en ip hour t i w = (r, w') \<Longrightarrow> (c, out) \<in> set (new_cmds w w') \<Longrightarrow>
   (\<exists>j. i \<le> j \<and> int j \<le> LIMIT cfg \<and> pk c = slot_key ip hour j) \<and>
   (\<exists>k. clock_reads w \<le> k \<and> k < clock_reads w' \<and> ttl c = Date_now en k div 1000 + t) \<and>
   (out = None \<longrightarrow> r = Inr True) \<and>
   (\<forall>e. out = Some e \<longrightarrow> err_name e \<noteq> Some (js ''ConditionalCheckFailedException'') \<longrightarrow> r = Inl e)"
proof (induction i w rule: slot_loop_induct [where cfg = cfg and en = en and ip = ip and hour = hour and t = t])
  case (stop i w)
  then show ?case by (simp add: slot_loop_stop new_cmds_def)
next
  case (step i w)
  let ?cmd = "\<lparr>TableName = TABLE cfg, pk = slot_key ip hour i,
                 ttl = Date_now en (clock_reads w) div 1000 + t\<rparr>"
  have key: "\<exists>j. i \<le> j \<and> int j \<le> LIMIT cfg \<and> pk ?cmd = slot_key ip hour j"
    using step.hyps(1) by (intro exI [of _ i]) simp
  show ?case
  proof (cases rule: consume_cases [where en = en and w = w and cfg = cfg
        and key = "slot_key ip hour i" and t = t])
    case (created w1)
    from step.prems(1) step.hyps(1) created(1) have r: "r = Inr True" and w': "w' = w1"
      by (simp_all add: slot_loop_step)
    from created(5) step.prems(2) have c: "c = ?cmd" and out: "out = None"
      by (simp_all add: w' new_cmds_def)
    have "\<exists>k. clock_reads w \<le> k \<and> k < clock_reads w' \<and> ttl c = Date_now en k div 1000 + t"
      by (intro exI [of _ "clock_reads w"]) (simp add: c w' created(6))
    with key r out c show ?thesis by simp
  next
    case (taken e w1)
    from step.prems(1) step.hyps(1) taken(1)
    have rec: "slot_loop cfg en ip hour t (Suc i) w1 = (r, w')"
      by (simp add: slot_loop_step)
    from slot_loop_log [OF rec] taken(5)
    have "ddb_log w' = ddb_log w @ ((?cmd, Some e) # new_cmds w1 w')"
      by simp
    then have new: "new_cmds w w' = (?cmd, Some e) # new_cmds w1 w'"
      by (rule new_cmds_append)
    from slot_loop_frame [OF rec] taken(6) have clk: "Suc (clock_reads w) \<le> clock_reads w'"
      by simp
    show ?thesis
    proof (cases "(c, out) \<in> set (new_cmds w1 w')")
      case True
      from step.IH [OF taken(1) rec True]
      obtain j k where "Suc i \<le> j" "int j \<le> LIMIT cfg" "pk c = slot_key ip hour j"
        "clock_reads w1 \<le> k" "k < clock_reads w'" "ttl c = Date_now en k div 1000 + t"
        and rest: "out = None \<longrightarrow> r = Inr True"
          "\<forall>e. out = Some e \<longrightarrow> err_name e \<noteq> Some (js ''ConditionalCheckFailedException'') \<longrightarrow> r = Inl e"
        by blast
      with taken(6) have "i \<le> j \<and> int j \<le> LIMIT cfg \<and> pk c = slot_key ip hour j"
        and "clock_reads w \<le> k \<and> k < clock_reads w' \<and> ttl c = Date_now en k div 1000 + t"
        by simp_all
      with rest show ?thesis by blast
    next
      case False
      with step.prems(2) new have c: "c = ?cmd" and out: "out = Some e"
        by simp_all
      have "\<exists>k. clock_reads w \<le> k \<and> k < clock_reads w' \<and> ttl c = Date_now en k div 1000 + t"
        using clk by (intro exI [of _ "clock_reads w"]) (simp add: c)
      with key taken(2) out c show ?thesis by simp
    qed
  next
    case (thrown e w1)
    from step.prems(1) step.hyps(1) thrown(1) have r: "r = Inl e" and w': "w' = w1"
      by (simp_all add: slot_loop_step)
    from thrown(5) step.prems(2) have c: "c = ?cmd" and out: "out = Some e"
      by (simp_all add: w' new_cmds_def)
    have "\<exists>k. clock_reads w \<le> k \<and> k < clock_reads w' \<and> ttl c = Date_now en k div 1000 + t"
      by (intro exI [of _ "clock_reads w"]) (simp add: c w' thrown(6))
    with key r out c show ?thesis by simp
  qed
qed


section \<open>Expiry of a created slot\<close>

lemmas example_defs =
  example_config_def example_env_def faulty_env_def example_world_def example_ip_def
  example_parse_def body_valid_def body_no_message_def body_honeypot_def body_garbage_def
  post_from_def SyntaxError_def InternalServerError_def ConditionalCheckFailedException_def
  example_key_1_def example_key_2_def example_put_def

lemmas limiter_defs =
  checkRateLimit_def read_clock_def slot_loop.simps consume_eq slot_key_def
  Number_toString.simps digit_def

lemma example_first_call:
  "checkRateLimit example_config example_env example_ip example_world = (Inr True, example_world_1)"
  by (simp add: limiter_defs example_defs example_world_1_def js_def)

text \<open>
  C7. Whenever a call of \<open>checkRateLimit\<close> changes the table at a key, the call returned
  \<open>true\<close>, the key is a slot key of the caller's identity and window that was absent, and
  the value written is \<open>now + 3600 + 100\<close>, where \<open>now\<close> is the floor of the epoch seconds
  of the last clock reading of the call: the reading \<open>consume\<close> takes for the command that
  created the key, later than the reading that fixed the window.
\<close>

theorem created_slot_expiry:
  assumes "checkRateLimit cfg en ip w = (r, w')" and "table w' key \<noteq> table w key"
  shows "r = Inr True \<and>
         (\<exists>i. 1 \<le> i \<and> int i \<le> LIMIT cfg \<and> key = slot_key ip (hour_at en w) i) \<and>
         table w key = None \<and>
         clock_reads w < clock_reads w' - 1 \<and>
         table w' key = Some (Date_now en (clock_reads w' - 1) div 1000 + 3600 + 100)"
proof -
  let ?w1 = "w\<lparr>clock_reads := Suc (clock_reads w)\<rparr>"
  from assms(1) have loop: "slot_loop cfg en ip (hour_at en w) 3700 1 ?w1 = (r, w')"
    by (simp add: checkRateLimit_eq)
  from slot_loop_table [OF loop] assms(2)
  obtain j where r: "r = Inr True" and clk: "clock_reads ?w1 < clock_reads w'"
    and j: "1 \<le> j" "int j \<le> LIMIT cfg" "table ?w1 (slot_key ip (hour_at en w) j) = None"
    and t: "table w' = (table ?w1)(slot_key ip (hour_at en w) j \<mapsto>
              Date_now en (clock_reads w' - 1) div 1000 + 3700)"
    by auto
  from t assms(2) have key: "key = slot_key ip (hour_at en w) j"
    by (cases "key = slot_key ip (hour_at en w) j") simp_all
  have "\<exists>i. 1 \<le> i \<and> int i \<le> LIMIT cfg \<and> key = slot_key ip (hour_at en w) i"
    using j(1,2) key by blast
  moreover from j(3) key have "table w key = None" by simp
  moreover from clk have "clock_reads w < clock_reads w' - 1" by simp
  moreover from t key
  have "table w' key = Some (Date_now en (clock_reads w' - 1) div 1000 + 3600 + 100)"
    by simp
  ultimately show ?thesis using r by blast
qed

theorem created_slot_expiry_witness:
  "checkRateLimit example_config example_env example_ip example_world =
     (Inr True, example_world_1) \<and>
   table example_world_1 example_key_1 \<noteq> table example_world example_key_1 \<and>
   table example_world_1 example_key_1 = Some (1703844000 + 3600 + 100)"
proof -
  have changed: "table example_world_1 example_key_1 \<noteq> table example_world example_key_1"
    by (simp add: example_world_1_def example_world_def)
  from created_slot_expiry [OF example_first_call changed] example_first_call changed
  show ?thesis
    by (simp add: example_world_1_def example_env_def)
qed

section \<open>The handler\<close>

lemma new_cmds_clock [simp]: "new_cmds (w\<lparr>clock_reads := n\<rparr>) w' = new_cmds w w'"
  by (simp add: new_cmds_def)

lemma checkRateLimit_frame:
  assumes "checkRateLimit cfg en ip w = (r, w')"
  shows "ses_log w' = ses_log w" and "ddb_log w' = ddb_log w @ new_cmds w w'"
    and "clock_reads w < clock_reads w'"
proof -
  let ?w1 = "w\<lparr>clock_reads := Suc (clock_reads w)\<rparr>"
  from assms have loop: "slot_loop cfg en ip (hour_at en w) 3700 1 ?w1 = (r, w')"
    by (simp add: checkRateLimit_eq)
  from slot_loop_frame [OF loop] show "ses_log w' = ses_log w" and "clock_reads w < clock_reads w'"
    by simp_all
  from slot_loop_log [OF loop] show "ddb_log w' = ddb_log w @ new_cmds w w'"
    by simp
qed

lemma checkRateLimit_entries:
  assumes "checkRateLimit cfg en ip w = (r, w')" and "(c, out) \<in> set (new_cmds w w')"
  shows "\<exists>j. 1 \<le> j \<and> int j \<le> LIMIT cfg \<and> pk c = slot_key ip (hour_at en w) j"
    and "\<exists>k. clock_reads w < k \<and> k < clock_reads w' \<and> ttl c = Date_now en k div 1000 + 3700"
    and "out = None \<Longrightarrow> r = Inr True"
    and "out = Some e \<Longrightarrow> err_name e \<noteq> Some (js ''ConditionalCheckFailedException'') \<Longrightarrow> r = Inl e"
proof -
  let ?w1 = "w\<lparr>clock_reads := Suc (clock_reads w)\<rparr>"
  from assms(1) have loop: "slot_loop cfg en ip (hour_at en w) 3700 1 ?w1 = (r, w')"
    by (simp add: checkRateLimit_eq)
  from assms(2) have mem: "(c, out) \<in> set (new_cmds ?w1 w')" by simp
  note all = slot_loop_entries [OF loop mem]
  from all show "\<exists>j. 1 \<le> j \<and> int j \<le> LIMIT cfg \<and> pk c = slot_key ip (hour_at en w) j"
    by blast
  from all obtain k where "clock_reads ?w1 \<le> k" "k < clock_reads w'"
    "ttl c = Date_now en k div 1000 + 3700" by blast
  then show "\<exists>k. clock_reads w < k \<and> k < clock_reads w' \<and> ttl c = Date_now en k div 1000 + 3700"
    by (intro exI [of _ k]) simp
  from all show "out = None \<Longrightarrow> r = Inr True" by blast
  from all show "out = Some e \<Longrightarrow> err_name e \<noteq> Some (js ''ConditionalCheckFailedException'') \<Longrightarrow> r = Inl e"
    by blast
qed

lemma ses_send_frame:
  assumes "ses_send en m w = (r, w')"
  shows "table w' = table w" and "ddb_log w' = ddb_log w" and "clock_reads w' = clock_reads w"
    and "ses_log w' = ses_log w @ [m]"
  using assms by (auto simp add: ses_send_def split: option.splits)

text \<open>What the part after validation does with a rejected command.\<close>

lemma limit_and_send_fault:
  assumes run: "limit_and_send cfg en ev name email message w = (res, w')"
    and mem: "(c, Some e) \<in> set (new_cmds w w')"
    and other: "err_name e \<noteq> Some (js ''ConditionalCheckFailedException'')"
  shows "res = Inl e \<and> ses_log w' = ses_log w"
proof -
  obtain r w1 where chk: "checkRateLimit cfg en (ipFromEvent ev) w = (r, w1)"
    by (cases "checkRateLimit cfg en (ipFromEvent ev) w") blast
  show ?thesis
  proof (cases r)
    case (Inl e')
    with run chk have res: "res = Inl e'" and w': "w' = w1"
      by (simp_all add: limit_and_send_def)
    from checkRateLimit_entries(4) [OF chk mem [unfolded w'] refl other] Inl
    have "e' = e" by simp
    with res w' checkRateLimit_frame(1) [OF chk] show ?thesis by simp
  next
    case (Inr allowed)
    have same: "new_cmds w w' = new_cmds w w1"
    proof (cases allowed)
      case False
      with run chk Inr show ?thesis by (simp add: limit_and_send_def)
    next
      case True
      obtain r2 w2 where s: "ses_send en (contact_mail cfg name email message) w1 = (r2, w2)"
        by (cases "ses_send en (contact_mail cfg name email message) w1") blast
      with run chk Inr True have "w' = w2"
        by (simp add: limit_and_send_def split: sum.splits)
      with ses_send_frame(2) [OF s] show ?thesis by (simp add: new_cmds_def)
    qed
    from checkRateLimit_entries(4) [OF chk mem [unfolded same] refl other] Inr
    show ?thesis by simp
  qed
qed

lemma handler_try_frame:
  assumes "handler_try cfg en ev w = (res, w')"
  shows "w' = w \<or> (\<exists>name email message. limit_and_send cfg en ev name email message w = (res, w'))"
  using assms
  by (auto simp add: handler_try_def split: if_splits sum.splits)

lemma consume_result:
  "consume cfg en key t w = (r, w') \<Longrightarrow> (c, Some e) \<in> set (new_cmds w w') \<Longrightarrow>
   r = (if err_name e = Some (js ''ConditionalCheckFailedException'') then Inr False else Inl e)"
  by (auto simp add: consume_eq Let_def new_cmds_def ConditionalCheckFailedException_def
      split: option.splits if_splits)

lemma handler_cases:
  assumes "handler cfg en ev w = (resp, w')"
  shows "w' = w \<or>
         (\<exists>name email message res.
            limit_and_send cfg en ev name email message w = (res, w') \<and>
            resp = (case res of Inl e \<Rightarrow> reply cfg 500 ''Server error'' | Inr x \<Rightarrow> x))"
proof (cases "request_method ev = Some (js ''OPTIONS'')")
  case True
  with assms show ?thesis by (simp add: handler_def)
next
  case False
  obtain res w1 where t: "handler_try cfg en ev w = (res, w1)"
    by (cases "handler_try cfg en ev w") blast
  with assms False have w': "w' = w1"
    and resp: "resp = (case res of Inl e \<Rightarrow> reply cfg 500 ''Server error'' | Inr x \<Rightarrow> x)"
    by (simp_all add: handler_def split: sum.splits)
  from handler_try_frame [OF t] w' resp show ?thesis by blast
qed


text \<open>
  C3. Take any command that a run logged as rejected with an error \<open>e\<close>. If the run is a
  call of \<open>consume\<close>, it returns \<open>false\<close> when \<open>e\<close> is named
  \<open>ConditionalCheckFailedException\<close> and throws \<open>e\<close> otherwise: the condition failure is
  the only error turned into control flow. If \<open>e\<close> has another name and the run is a call of
  \<open>checkRateLimit\<close>, the call throws \<open>e\<close>; if the run is a request, the handler answers
  500 with the body \<open>Server error\<close> and no command was sent to SES.
\<close>

theorem store_fault_is_server_error:
  assumes "(c, Some e) \<in> set (new_cmds w w')"
  shows "(consume cfg en key t w = (r, w') \<longrightarrow>
            r = (if err_name e = Some (js ''ConditionalCheckFailedException'')
                 then Inr False else Inl e)) \<and>
         (err_name e \<noteq> Some (js ''ConditionalCheckFailedException'') \<longrightarrow>
            (checkRateLimit cfg en ip w = (r, w') \<longrightarrow> r = Inl e) \<and>
            (handler cfg en ev w = (resp, w') \<longrightarrow>
               resp = reply cfg 500 ''Server error'' \<and> ses_log w' = ses_log w))"
proof (intro conjI impI)
  assume "consume cfg en key t w = (r, w')"
  from consume_result [OF this assms]
  show "r = (if err_name e = Some (js ''ConditionalCheckFailedException'') then Inr False else Inl e)" .
next
  assume other: "err_name e \<noteq> Some (js ''ConditionalCheckFailedException'')"
    and "checkRateLimit cfg en ip w = (r, w')"
  from checkRateLimit_entries(4) [OF this(2) assms refl other] show "r = Inl e" .
next
  assume other: "err_name e \<noteq> Some (js ''ConditionalCheckFailedException'')"
    and h: "handler cfg en ev w = (resp, w')"
  from assms have "w' \<noteq> w" by (auto simp add: new_cmds_def)
  with handler_cases [OF h] obtain name email message res
    where l: "limit_and_send cfg en ev name email message w = (res, w')"
      and resp: "resp = (case res of Inl e \<Rightarrow> reply cfg 500 ''Server error'' | Inr x \<Rightarrow> x)"
    by blast
  from limit_and_send_fault [OF l assms other] resp
  show "resp = reply cfg 500 ''Server error''" and "ses_log w' = ses_log w"
    by simp_all
qed

lemmas handler_defs =
  handler_def handler_try_def request_method_def request_body_def js_or_def is_set_def
  field_text_def or_empty_def trim_def is_white_space_def reply_def corsHeaders_def
  limit_and_send_def ipFromEvent_def contact_mail_def ses_send_def

lemma faulty_check:
  "checkRateLimit example_config faulty_env example_ip example_world =
     (Inl InternalServerError, faulty_world_1)"
  by (simp add: limiter_defs example_defs faulty_world_1_def js_def)

lemma faulty_consume:
  "consume example_config faulty_env example_key_1 3700
     (example_world\<lparr>clock_reads := 1\<rparr>) = (Inl InternalServerError, faulty_world_1)"
  by (simp add: limiter_defs example_defs faulty_world_1_def js_def)

lemma faulty_handler:
  "handler example_config faulty_env (post_from (Some example_ip) (Some body_valid)) example_world =
     (reply example_config 500 ''Server error'', faulty_world_1)"
  by (simp add: handler_defs limiter_defs example_defs faulty_world_1_def js_def)


theorem store_fault_is_server_error_witness:
  "(example_put example_key_1, Some InternalServerError) \<in>
     set (new_cmds example_world faulty_world_1) \<and>
   err_name InternalServerError \<noteq> Some (js ''ConditionalCheckFailedException'') \<and>
   consume example_config faulty_env example_key_1 3700
     (example_world\<lparr>clock_reads := 1\<rparr>) = (Inl InternalServerError, faulty_world_1) \<and>
   checkRateLimit example_config faulty_env example_ip example_world =
     (Inl InternalServerError, faulty_world_1) \<and>
   fst (handler example_config faulty_env (post_from (Some example_ip) (Some body_valid))
          example_world) = reply example_config 500 ''Server error'' \<and>
   ses_log faulty_world_1 = ses_log example_world"
proof -
  let ?ev = "post_from (Some example_ip) (Some body_valid)"
  have mem: "(example_put example_key_1, Some InternalServerError) \<in>
      set (new_cmds example_world faulty_world_1)"
    by (simp add: new_cmds_def example_world_def faulty_world_1_def)
  have other: "err_name InternalServerError \<noteq> Some (js ''ConditionalCheckFailedException'')"
    by (simp add: InternalServerError_def js_def)
  have run: "handler example_config faulty_env ?ev example_world =
      (fst (handler example_config faulty_env ?ev example_world), faulty_world_1)"
    by (simp add: faulty_handler)
  from store_fault_is_server_error [OF mem, of example_config faulty_env _ _ _ _ ?ev
      "fst (handler example_config faulty_env ?ev example_world)"] other run
  have "fst (handler example_config faulty_env ?ev example_world) =
      reply example_config 500 ''Server error'' \<and> ses_log faulty_world_1 = ses_log example_world"
    by blast
  with mem other faulty_consume faulty_check show ?thesis by blast
qed

lemma field_text_empty_object [simp]: "field_text (JObject []) f = Inr []"
  by (simp add: field_text_def or_empty_def trim_def)

text \<open>
  C4. In a configured deployment, a request that is not a preflight and whose parsed body
  has a \<open>company\<close> field that is non-empty after trimming is answered 200 \<open>OK\<close> with the
  world unchanged: no command is sent to DynamoDB or SES, no slot is taken, the clock is
  not even read. Nothing is assumed about the other fields or about the table, so the check
  precedes validation and the rate limit.
\<close>

theorem honeypot_short_circuit:
  assumes "is_set (TABLE cfg)" and "is_set (FROM_EMAIL cfg)"
    and "request_method ev \<noteq> Some (js ''OPTIONS'')"
    and "JSON_parse en (request_body ev) = Inr parsed"
    and "field_text parsed (js ''company'') = Inr company" and "company \<noteq> []"
  shows "handler cfg en ev w = (reply cfg 200 ''OK'', w)"
  using assms by (simp add: handler_def handler_try_def)

theorem honeypot_short_circuit_witness:
  "is_set (TABLE example_config) \<and> is_set (FROM_EMAIL example_config) \<and>
   request_method (post_from (Some example_ip) (Some body_honeypot)) \<noteq> Some (js ''OPTIONS'') \<and>
   JSON_parse example_env (request_body (post_from (Some example_ip) (Some body_honeypot))) =
     Inr (JObject [(js ''name'', JString (js ''Ann'')), (js ''company'', JString (js ''Acme''))]) \<and>
   field_text (JObject [(js ''name'', JString (js ''Ann'')), (js ''company'', JString (js ''Acme''))])
     (js ''company'') = Inr (js ''Acme'') \<and>
   js ''Acme'' \<noteq> [] \<and>
   handler example_config example_env (post_from (Some example_ip) (Some body_honeypot))
     example_world_1 = (reply example_config 200 ''OK'', example_world_1)"
proof -
  let ?ev = "post_from (Some example_ip) (Some body_honeypot)"
  let ?parsed = "JObject [(js ''name'', JString (js ''Ann'')), (js ''company'', JString (js ''Acme''))]"
  have 1: "is_set (TABLE example_config)" and 2: "is_set (FROM_EMAIL example_config)"
    by (simp_all add: example_config_def is_set_def js_def)
  have 3: "request_method ?ev \<noteq> Some (js ''OPTIONS'')"
    by (simp add: request_method_def post_from_def js_or_def js_def)
  have 4: "JSON_parse example_env (request_body ?ev) = Inr ?parsed"
    by (simp add: request_body_def example_defs js_def)
  have 5: "field_text ?parsed (js ''company'') = Inr (js ''Acme'')"
    by (simp add: field_text_def or_empty_def trim_def is_white_space_def js_def)
  have 6: "js ''Acme'' \<noteq> []" by (simp add: js_def)
  from honeypot_short_circuit [OF 1 2 3 4 5 6] 1 2 3 4 5 6 show ?thesis by blast
qed

text \<open>
  C8, as amended. In a configured deployment, take a request that is not a preflight, whose
  honeypot field is empty, and for which the three conversions
  \<open>String(body.name || "").trim()\<close>, \<open>String(body.email || "").trim()\<close> and
  \<open>String(body.message || "").trim()\<close> all return, with the values \<open>name\<close>, \<open>email\<close>
  and \<open>message\<close>. If at least one of the three is empty, the request is answered 400
  \<open>Missing fields\<close> with the world unchanged: no store write and no email.
\<close>

theorem missing_field_rejected:
  assumes "is_set (TABLE cfg)" and "is_set (FROM_EMAIL cfg)"
    and "request_method ev \<noteq> Some (js ''OPTIONS'')"
    and "JSON_parse en (request_body ev) = Inr parsed"
    and "field_text parsed (js ''company'') = Inr []"
    and "field_text parsed (js ''name'') = Inr name"
    and "field_text parsed (js ''email'') = Inr email"
    and "field_text parsed (js ''message'') = Inr message"
    and "name = [] \<or> email = [] \<or> message = []"
  shows "handler cfg en ev w = (reply cfg 400 ''Missing fields'', w)"
  using assms by (simp add: handler_def handler_try_def)

theorem missing_field_rejected_witness:
  "is_set (TABLE example_config) \<and> is_set (FROM_EMAIL example_config) \<and>
   request_method (post_from (Some example_ip) (Some body_no_message)) \<noteq> Some (js ''OPTIONS'') \<and>
   JSON_parse example_env (request_body (post_from (Some example_ip) (Some body_no_message))) =
     Inr (JObject [(js ''name'', JString (js ''Ann'')),
                   (js ''email'', JString (js ''ann@example.com''))]) \<and>
   field_text (JObject [(js ''name'', JString (js ''Ann'')),
                        (js ''email'', JString (js ''ann@example.com''))]) (js ''message'') = Inr [] \<and>
   handler example_config example_env (post_from (Some example_ip) (Some body_no_message))
     example_world = (reply example_config 400 ''Missing fields'', example_world)"
proof -
  let ?ev = "post_from (Some example_ip) (Some body_no_message)"
  let ?parsed = "JObject [(js ''name'', JString (js ''Ann'')),
                          (js ''email'', JString (js ''ann@example.com''))]"
  have 1: "is_set (TABLE example_config)" and 2: "is_set (FROM_EMAIL example_config)"
    by (simp_all add: example_config_def is_set_def js_def)
  have 3: "request_method ?ev \<noteq> Some (js ''OPTIONS'')"
    by (simp add: request_method_def post_from_def js_or_def js_def)
  have 4: "JSON_parse example_env (request_body ?ev) = Inr ?parsed"
    by (simp add: request_body_def example_defs js_def)
  have 5: "field_text ?parsed (js ''company'') = Inr []"
    by (simp add: field_text_def or_empty_def trim_def is_white_space_def js_def)
  have 6: "field_text ?parsed (js ''name'') = Inr (js ''Ann'')"
    by (simp add: field_text_def or_empty_def trim_def is_white_space_def js_def)
  have 7: "field_text ?parsed (js ''email'') = Inr (js ''ann@example.com'')"
    by (simp add: field_text_def or_empty_def trim_def is_white_space_def js_def)
  have 8: "field_text ?parsed (js ''message'') = Inr []"
    by (simp add: field_text_def or_empty_def trim_def is_white_space_def js_def)
  have 9: "js ''Ann'' = [] \<or> js ''ann@example.com'' = [] \<or> ([] :: jstring) = []" by simp
  from missing_field_rejected [OF 1 2 3 4 5 6 7 8 9] 1 2 3 4 8 show ?thesis by blast
qed

lemma bad_email_run:
  "handler example_config bad_email_env (post_from (Some example_ip) (Some body_bad_email))
     example_world = (reply example_config 500 ''Server error'', example_world)"
  by (simp add: handler_defs example_defs bad_email_env_def body_bad_email_def
      parsed_bad_email_def TypeError_def js_def)

text \<open>
  C8 as stated does not ask that the conversions return, and fails without it. For the body
  \<open>{"name":"","email":{"toString":1},"message":"Hi"}\<close> the honeypot field and \<open>name\<close>
  are empty after trimming, \<open>String(body.email || "")\<close> throws a TypeError because the
  object has an own property \<open>toString\<close> that is not callable, and the catch answers 500
  \<open>Server error\<close>, not 400.
\<close>

theorem missing_field_rejected_counterexample:
  "is_set (TABLE example_config) \<and> is_set (FROM_EMAIL example_config) \<and>
   request_method (post_from (Some example_ip) (Some body_bad_email)) \<noteq> Some (js ''OPTIONS'') \<and>
   JSON_parse bad_email_env (request_body (post_from (Some example_ip) (Some body_bad_email))) =
     Inr parsed_bad_email \<and>
   field_text parsed_bad_email (js ''company'') = Inr [] \<and>
   field_text parsed_bad_email (js ''name'') = Inr [] \<and>
   field_text parsed_bad_email (js ''email'') = Inl TypeError \<and>
   handler example_config bad_email_env (post_from (Some example_ip) (Some body_bad_email))
     example_world = (reply example_config 500 ''Server error'', example_world) \<and>
   statusCode (reply example_config 500 ''Server error'') \<noteq> 400"
proof -
  let ?ev = "post_from (Some example_ip) (Some body_bad_email)"
  have 1: "is_set (TABLE example_config)" and 2: "is_set (FROM_EMAIL example_config)"
    by (simp_all add: example_config_def is_set_def js_def)
  have 3: "request_method ?ev \<noteq> Some (js ''OPTIONS'')"
    by (simp add: request_method_def post_from_def js_or_def js_def)
  have 4: "JSON_parse bad_email_env (request_body ?ev) = Inr parsed_bad_email"
    by (simp add: request_body_def post_from_def bad_email_env_def body_bad_email_def js_def)
  have 5: "field_text parsed_bad_email (js ''company'') = Inr []"
    and 6: "field_text parsed_bad_email (js ''name'') = Inr []"
    and 7: "field_text parsed_bad_email (js ''email'') = Inl TypeError"
    by (simp_all add: parsed_bad_email_def field_text_def or_empty_def trim_def js_def)
  have 8: "statusCode (reply example_config 500 ''Server error'') \<noteq> 400"
    by (simp add: reply_def)
  from 1 2 3 4 5 6 7 8 bad_email_run show ?thesis by blast
qed

text \<open>
  C9. In a configured deployment, for a request that is not a preflight: when the body is
  present and non-empty and \<open>JSON.parse\<close> throws on it, the handler answers 500
  \<open>Server error\<close> (the outer catch), not 400; when the body is missing or empty, \<open>{}\<close> is
  parsed instead and the answer is 400 \<open>Missing fields\<close>. The world is unchanged in both
  cases.
\<close>

theorem unparsable_body_is_server_error:
  assumes "is_set (TABLE cfg)" and "is_set (FROM_EMAIL cfg)"
    and "request_method ev \<noteq> Some (js ''OPTIONS'')"
  shows "(\<forall>b e. body ev = Some b \<and> b \<noteq> [] \<and> JSON_parse en b = Inl e \<longrightarrow>
            handler cfg en ev w = (reply cfg 500 ''Server error'', w)) \<and>
         ((body ev = None \<or> body ev = Some []) \<and> JSON_parse en (js ''{}'') = Inr (JObject []) \<longrightarrow>
            handler cfg en ev w = (reply cfg 400 ''Missing fields'', w))"
  using assms by (auto simp add: handler_def handler_try_def request_body_def)

theorem unparsable_body_is_server_error_witness:
  "is_set (TABLE example_config) \<and> is_set (FROM_EMAIL example_config) \<and>
   request_method (post_from (Some example_ip) (Some body_garbage)) \<noteq> Some (js ''OPTIONS'') \<and>
   body_garbage \<noteq> [] \<and> JSON_parse example_env body_garbage = Inl SyntaxError \<and>
   handler example_config example_env (post_from (Some example_ip) (Some body_garbage))
     example_world = (reply example_config 500 ''Server error'', example_world) \<and>
   request_method (post_from (Some example_ip) None) \<noteq> Some (js ''OPTIONS'') \<and>
   JSON_parse example_env (js ''{}'') = Inr (JObject []) \<and>
   handler example_config example_env (post_from (Some example_ip) None)
     example_world = (reply example_config 400 ''Missing fields'', example_world)"
proof -
  let ?bad = "post_from (Some example_ip) (Some body_garbage)"
  let ?none = "post_from (Some example_ip) None"
  have 1: "is_set (TABLE example_config)" and 2: "is_set (FROM_EMAIL example_config)"
    by (simp_all add: example_config_def is_set_def js_def)
  have 3: "request_method ?bad \<noteq> Some (js ''OPTIONS'')"
    and 4: "request_method ?none \<noteq> Some (js ''OPTIONS'')"
    by (simp_all add: request_method_def post_from_def js_or_def js_def)
  have 5: "body ?bad = Some body_garbage" and 6: "body ?none = None"
    by (simp_all add: post_from_def)
  have 7: "body_garbage \<noteq> []" by (simp add: body_garbage_def js_def)
  have 8: "JSON_parse example_env body_garbage = Inl SyntaxError"
    by (simp add: example_defs js_def)
  have 9: "JSON_parse example_env (js ''{}'') = Inr (JObject [])"
    by (simp add: example_defs js_def)
  from unparsable_body_is_server_error [OF 1 2 3, of example_env example_world] 5 7 8
  have a: "handler example_config example_env ?bad example_world =
      (reply example_config 500 ''Server error'', example_world)"
    by blast
  from unparsable_body_is_server_error [OF 1 2 4, of example_env example_world] 6 9
  have b: "handler example_config example_env ?none example_world =
      (reply example_config 400 ''Missing fields'', example_world)"
    by blast
  from a b 1 2 3 4 7 8 9 show ?thesis by blast
qed


section \<open>The limiter in a store without faults\<close>

lemma new_cmds_step:
  assumes "slot_loop cfg en ip hour t i w1 = (r, w')" and "ddb_log w1 = ddb_log w @ [x]"
  shows "new_cmds w w' = x # new_cmds w1 w'"
proof -
  from slot_loop_log [OF assms(1)] assms(2)
  have "ddb_log w' = ddb_log w @ (x # new_cmds w1 w')" by simp
  then show ?thesis by (rule new_cmds_append)
qed

lemma probed_step:
  assumes "slot_loop cfg en ip hour t i w1 = (r, w')" and "ddb_log w1 = ddb_log w @ [(c, out)]"
  shows "probed w w' = pk c # probed w1 w'"
  using new_cmds_step [OF assms] by (simp add: probed_def)

lemma no_faultsD: "no_faults en \<Longrightarrow> ddb_fault en k = None"
  by (simp add: no_faults_def)

lemma slot_loop_exhausted:
  assumes "no_faults en"
  shows "\<forall>j. i \<le> j \<and> int j \<le> LIMIT cfg \<longrightarrow> table w (slot_key ip hour j) \<noteq> None \<Longrightarrow>
         slot_loop cfg en ip hour t i w = (r, w') \<Longrightarrow>
         r = Inr False \<and> table w' = table w \<and>
         probed w w' = map (slot_key ip hour) [i..<nat (LIMIT cfg + 1)]"
proof (induction i w rule: slot_loop_induct [where cfg = cfg and en = en and ip = ip and hour = hour and t = t])
  case (stop i w)
  then have "r = Inr False" and "w' = w" by (simp_all add: slot_loop_stop)
  moreover from stop.hyps have "nat (LIMIT cfg + 1) \<le> i" by arith
  ultimately show ?case by (simp add: probed_def new_cmds_def)
next
  case (step i w)
  from step.hyps(1) have i: "i < nat (LIMIT cfg + 1)" by arith
  from step.prems(1) step.hyps(1) have here: "table w (slot_key ip hour i) \<noteq> None"
    by simp
  show ?case
  proof (cases rule: consume_cases [where en = en and w = w and cfg = cfg
        and key = "slot_key ip hour i" and t = t])
    case (created w1)
    with here show ?thesis by simp
  next
    case (taken e w1)
    from step.prems(2) step.hyps(1) taken(1)
    have rec: "slot_loop cfg en ip hour t (Suc i) w1 = (r, w')"
      by (simp add: slot_loop_step)
    from step.prems(1) taken(4)
    have "\<forall>j. Suc i \<le> j \<and> int j \<le> LIMIT cfg \<longrightarrow> table w1 (slot_key ip hour j) \<noteq> None"
      by simp
    from step.IH [OF taken(1) this rec] taken(4) probed_step [OF rec taken(5)]
    show ?thesis
      by (simp add: upt_conv_Cons [OF i])
  next
    case (thrown e w1)
    with no_faultsD [OF assms] show ?thesis by simp
  qed
qed

lemma slot_loop_first_free:
  assumes "no_faults en" and "int j \<le> LIMIT cfg"
  shows "i \<le> j \<Longrightarrow> table w (slot_key ip hour j) = None \<Longrightarrow>
         \<forall>k. i \<le> k \<and> k < j \<longrightarrow> table w (slot_key ip hour k) \<noteq> None \<Longrightarrow>
         slot_loop cfg en ip hour t i w = (r, w') \<Longrightarrow>
         r = Inr True \<and>
         table w' = (table w)(slot_key ip hour j \<mapsto> Date_now en (clock_reads w' - 1) div 1000 + t) \<and>
         probed w w' = map (slot_key ip hour) [i..<Suc j]"
proof (induction i w rule: slot_loop_induct [where cfg = cfg and en = en and ip = ip and hour = hour and t = t])
  case (stop i w)
  from stop.hyps stop.prems(1) assms(2) have False by linarith
  then show ?case ..
next
  case (step i w)
  show ?case
  proof (cases rule: consume_cases [where en = en and w = w and cfg = cfg
        and key = "slot_key ip hour i" and t = t])
    case (created w1)
    from step.prems(4) step.hyps(1) created(1) have r: "r = Inr True" and w': "w' = w1"
      by (simp_all add: slot_loop_step)
    from created(3) step.prems(1,3) have "i = j"
      by (cases "i = j") simp_all
    with r w' created show ?thesis
      by (simp add: probed_def new_cmds_def)
  next
    case (taken e w1)
    from step.prems(4) step.hyps(1) taken(1)
    have rec: "slot_loop cfg en ip hour t (Suc i) w1 = (r, w')"
      by (simp add: slot_loop_step)
    from taken(3) no_faultsD [OF assms(1)] have "table w (slot_key ip hour i) \<noteq> None"
      by simp
    with step.prems(2) have "i \<noteq> j" by blast
    with step.prems(1) have lt: "i < Suc j" and le: "Suc i \<le> j"
      by simp_all
    from step.prems(2,3) taken(4)
    have "table w1 (slot_key ip hour j) = None"
      and "\<forall>k. Suc i \<le> k \<and> k < j \<longrightarrow> table w1 (slot_key ip hour k) \<noteq> None"
      by simp_all
    from step.IH [OF taken(1) le this rec] taken(4) probed_step [OF rec taken(5)]
    show ?thesis
      by (simp add: upt_conv_Cons [OF lt] del: upt_Suc)
  next
    case (thrown e w1)
    with no_faultsD [OF assms(1)] show ?thesis by simp
  qed
qed

lemma slot_loop_denied:
  assumes "no_faults en"
  shows "slot_loop cfg en ip hour t i w = (Inr False, w') \<Longrightarrow> i \<le> j \<Longrightarrow> int j \<le> LIMIT cfg \<Longrightarrow>
         table w (slot_key ip hour j) \<noteq> None"
proof (induction i w rule: slot_loop_induct [where cfg = cfg and en = en and ip = ip and hour = hour and t = t])
  case (stop i w)
  from stop.hyps stop.prems(2,3) have False by linarith
  then show ?case ..
next
  case (step i w)
  show ?case
  proof (cases rule: consume_cases [where en = en and w = w and cfg = cfg
        and key = "slot_key ip hour i" and t = t])
    case (created w1)
    with step.prems(1) step.hyps(1) show ?thesis
      by (simp add: slot_loop_step)
  next
    case (taken e w1)
    from step.prems(1) step.hyps(1) taken(1)
    have rec: "slot_loop cfg en ip hour t (Suc i) w1 = (Inr False, w')"
      by (simp add: slot_loop_step)
    from taken(3) no_faultsD [OF assms(1)] have here: "table w (slot_key ip hour i) \<noteq> None"
      by simp
    show ?thesis
    proof (cases "i = j")
      case True
      with here show ?thesis by simp
    next
      case False
      with step.prems(2) have "Suc i \<le> j" by simp
      from step.IH [OF taken(1) rec this step.prems(3)] taken(4) show ?thesis by simp
    qed
  next
    case (thrown e w1)
    with no_faultsD [OF assms(1)] show ?thesis by simp
  qed
qed

lemma consume_agree:
  assumes "clock_reads w1 = clock_reads w2" and "ddb_log w1 = ddb_log w2"
    and "ses_log w1 = ses_log w2" and "table w1 key = table w2 key"
    and "consume cfg en key t w1 = (r1, v1)" and "consume cfg en key t w2 = (r2, v2)"
  shows "r1 = r2 \<and> clock_reads v1 = clock_reads v2 \<and> ddb_log v1 = ddb_log v2 \<and>
         ses_log v1 = ses_log v2 \<and> table v1 key = table v2 key \<and>
         (\<forall>k. k \<noteq> key \<longrightarrow> table v1 k = table w1 k \<and> table v2 k = table w2 k)"
proof (cases "ddb_fault en (length (ddb_log w2))")
  case None
  show ?thesis
  proof (cases "table w2 key")
    case n: None
    with None assms show ?thesis by (auto simp add: consume_eq)
  next
    case (Some v)
    with None assms show ?thesis by (auto simp add: consume_eq)
  qed
next
  case (Some e)
  with assms show ?thesis by (auto simp add: consume_eq split: if_splits)
qed

lemma slot_loop_agree:
  assumes K: "\<And>j. slot_key ip hour j \<in> K"
  shows "agree_on K w1 w2 \<Longrightarrow>
         slot_loop cfg en ip hour t i w1 = (r1, v1) \<Longrightarrow>
         slot_loop cfg en ip hour t i w2 = (r2, v2) \<Longrightarrow>
         r1 = r2 \<and> agree_on K v1 v2 \<and>
         (\<forall>k. k \<notin> K \<longrightarrow> table v1 k = table w1 k \<and> table v2 k = table w2 k)"
proof (induction "nat (LIMIT cfg + 1 - int i)" arbitrary: i w1 w2)
  case 0
  then have "\<not> int i \<le> LIMIT cfg" by simp
  with 0 show ?case by (simp add: slot_loop_stop)
next
  case (Suc n)
  then have le: "int i \<le> LIMIT cfg" and n: "n = nat (LIMIT cfg + 1 - int (Suc i))"
    by simp_all
  let ?key = "slot_key ip hour i"
  obtain ra u1 where c1: "consume cfg en ?key t w1 = (ra, u1)"
    by (cases "consume cfg en ?key t w1") blast
  obtain rb u2 where c2: "consume cfg en ?key t w2 = (rb, u2)"
    by (cases "consume cfg en ?key t w2") blast
  from Suc.prems(1) K [of i] have pre: "clock_reads w1 = clock_reads w2" "ddb_log w1 = ddb_log w2"
    "ses_log w1 = ses_log w2" "table w1 ?key = table w2 ?key"
    by (simp_all add: agree_on_def)
  from consume_agree [OF pre c1 c2]
  have r: "ra = rb" and u: "clock_reads u1 = clock_reads u2" "ddb_log u1 = ddb_log u2"
    "ses_log u1 = ses_log u2" "table u1 ?key = table u2 ?key"
    and rest: "\<And>k. k \<noteq> ?key \<Longrightarrow> table u1 k = table w1 k \<and> table u2 k = table w2 k"
    by blast+
  have agree_u: "agree_on K u1 u2"
    unfolding agree_on_def
  proof (intro conjI ballI)
    fix k assume "k \<in> K"
    with Suc.prems(1) have "table w1 k = table w2 k" by (simp add: agree_on_def)
    with rest [of k] u(4) show "table u1 k = table u2 k" by (cases "k = ?key") simp_all
  qed (rule u)+
  have outside_u: "table u1 k = table w1 k \<and> table u2 k = table w2 k" if "k \<notin> K" for k
  proof -
    from that K [of i] have "k \<noteq> ?key" by blast
    then show ?thesis by (rule rest)
  qed
  show ?case
  proof (cases "ra = Inr False")
    case True
    with r c1 c2 have c1': "consume cfg en ?key t w1 = (Inr False, u1)"
      and c2': "consume cfg en ?key t w2 = (Inr False, u2)"
      by simp_all
    from Suc.prems(2) le c1' have l1: "slot_loop cfg en ip hour t (Suc i) u1 = (r1, v1)"
      by (simp add: slot_loop_step)
    from Suc.prems(3) le c2' have l2: "slot_loop cfg en ip hour t (Suc i) u2 = (r2, v2)"
      by (simp add: slot_loop_step)
    from Suc.hyps(1) [OF n agree_u l1 l2] outside_u show ?thesis by simp
  next
    case False
    with r have "rb \<noteq> Inr False" by simp
    with False Suc.prems(2,3) le c1 c2 have "r1 = ra" "v1 = u1" "r2 = rb" "v2 = u2"
      by (auto simp add: slot_loop_step split: sum.splits bool.splits)
    with r agree_u outside_u show ?thesis by simp
  qed
qed

lemma example_second_call:
  "checkRateLimit example_config example_env example_ip example_world_1 = (Inr True, example_world_2)"
  by (simp add: limiter_defs example_defs example_world_1_def example_world_2_def js_def)

lemma example_third_call:
  "checkRateLimit example_config example_env example_ip example_world_2 = (Inr False, example_world_3)"
  by (simp add: limiter_defs example_defs example_world_2_def example_world_3_def js_def)

lemma example_no_faults: "no_faults example_env"
  by (simp add: no_faults_def example_env_def)

lemma example_hours:
  "hour_at example_env example_world = 473290"
  "hour_at example_env example_world_1 = 473290"
  "hour_at example_env example_world_2 = 473290"
  "hour_at example_env example_world_3 = 473290"
  by (simp_all add: hour_at_def example_env_def example_world_def example_world_1_def
      example_world_2_def example_world_3_def)

lemma example_keys:
  "slot_key example_ip 473290 1 = example_key_1"
  "slot_key example_ip 473290 (Suc 0) = example_key_1"
  "slot_key example_ip 473290 2 = example_key_2"
  by (simp_all add: slot_key_def Number_toString.simps digit_def example_defs js_def)

lemma checkRateLimit_without_slots:
  assumes "checkRateLimit cfg en ip w = (r, w')" and "LIMIT cfg \<le> 0"
  shows "r = Inr False \<and> w' = w\<lparr>clock_reads := Suc (clock_reads w)\<rparr>"
proof -
  from assms(2) have "\<not> int 1 \<le> LIMIT cfg" by simp
  from slot_loop_stop [OF this] assms(1) show ?thesis
    by (simp add: checkRateLimit_eq)
qed

lemma checkRateLimit_denies:
  assumes "checkRateLimit cfg en ip w = (r, w')" and "no_faults en"
    and "\<forall>i. 1 \<le> i \<and> int i \<le> LIMIT cfg \<longrightarrow> table w (slot_key ip (hour_at en w) i) \<noteq> None"
  shows "r = Inr False \<and> table w' = table w \<and>
         probed w w' = map (slot_key ip (hour_at en w)) [1..<nat (LIMIT cfg + 1)]"
proof -
  let ?w1 = "w\<lparr>clock_reads := Suc (clock_reads w)\<rparr>"
  from assms(1) have loop: "slot_loop cfg en ip (hour_at en w) 3700 1 ?w1 = (r, w')"
    by (simp add: checkRateLimit_eq)
  have p: "probed ?w1 w' = probed w w'" by (simp add: probed_def new_cmds_def)
  from assms(3)
  have "\<forall>j. 1 \<le> j \<and> int j \<le> LIMIT cfg \<longrightarrow> table ?w1 (slot_key ip (hour_at en w) j) \<noteq> None"
    by simp
  from slot_loop_exhausted [OF assms(2) this loop] p show ?thesis by simp
qed

lemma checkRateLimit_allows:
  assumes "checkRateLimit cfg en ip w = (r, w')" and "no_faults en"
    and "1 \<le> j" and "int j \<le> LIMIT cfg"
    and "table w (slot_key ip (hour_at en w) j) = None"
    and "\<forall>i. 1 \<le> i \<and> i < j \<longrightarrow> table w (slot_key ip (hour_at en w) i) \<noteq> None"
  shows "r = Inr True \<and>
         table w' = (table w)(slot_key ip (hour_at en w) j \<mapsto>
                       Date_now en (clock_reads w' - 1) div 1000 + 3700) \<and>
         probed w w' = map (slot_key ip (hour_at en w)) [1..<Suc j]"
proof -
  let ?w1 = "w\<lparr>clock_reads := Suc (clock_reads w)\<rparr>"
  from assms(1) have loop: "slot_loop cfg en ip (hour_at en w) 3700 1 ?w1 = (r, w')"
    by (simp add: checkRateLimit_eq)
  have p: "probed ?w1 w' = probed w w'" by (simp add: probed_def new_cmds_def)
  from assms(5) have a: "table ?w1 (slot_key ip (hour_at en w) j) = None" by simp
  from assms(6)
  have b: "\<forall>k. 1 \<le> k \<and> k < j \<longrightarrow> table ?w1 (slot_key ip (hour_at en w) k) \<noteq> None"
    by simp
  from slot_loop_first_free [OF assms(2,4,3) a b loop] p show ?thesis by simp
qed

text \<open>
  C2. A call of \<open>checkRateLimit\<close> reads the clock once and works in the window
  \<open>hour_at en w\<close>, the floor of the epoch seconds divided by 3600. With no slot to probe
  (\<open>LIMIT \<le> 0\<close>, in particular \<open>LIMIT = 0\<close>) it returns \<open>false\<close> and leaves the world
  as it was but for that clock reading: nothing is sent to the store. In a store without
  faults: when every key of the slots \<open>1..LIMIT\<close> exists, it returns \<open>false\<close>, the table is
  unchanged and the keys probed are those of the slots \<open>1, ..., LIMIT\<close> in this order; when
  \<open>j\<close> is the first slot whose key is absent, it returns \<open>true\<close>, creates exactly that
  key and has probed the slots \<open>1, ..., j\<close> in this order, none after \<open>j\<close>.
\<close>

theorem checkRateLimit_probes_in_order:
  assumes "checkRateLimit cfg en ip w = (r, w')"
  shows "(LIMIT cfg \<le> 0 \<longrightarrow> r = Inr False \<and> w' = w\<lparr>clock_reads := Suc (clock_reads w)\<rparr>) \<and>
         (no_faults en \<and>
          (\<forall>i. 1 \<le> i \<and> int i \<le> LIMIT cfg \<longrightarrow> table w (slot_key ip (hour_at en w) i) \<noteq> None) \<longrightarrow>
            r = Inr False \<and> table w' = table w \<and>
            probed w w' = map (slot_key ip (hour_at en w)) [1..<nat (LIMIT cfg + 1)]) \<and>
         (\<forall>j. no_faults en \<and> 1 \<le> j \<and> int j \<le> LIMIT cfg \<and>
              table w (slot_key ip (hour_at en w) j) = None \<and>
              (\<forall>i. 1 \<le> i \<and> i < j \<longrightarrow> table w (slot_key ip (hour_at en w) i) \<noteq> None) \<longrightarrow>
            r = Inr True \<and>
            table w' = (table w)(slot_key ip (hour_at en w) j \<mapsto>
                          Date_now en (clock_reads w' - 1) div 1000 + 3700) \<and>
            probed w w' = map (slot_key ip (hour_at en w)) [1..<Suc j])"
  using checkRateLimit_without_slots [OF assms] checkRateLimit_denies [OF assms]
    checkRateLimit_allows [OF assms]
  by blast

lemma example_zero_call:
  "checkRateLimit (example_config\<lparr>LIMIT := 0\<rparr>) example_env example_ip example_world =
     (fst (checkRateLimit (example_config\<lparr>LIMIT := 0\<rparr>) example_env example_ip example_world),
      snd (checkRateLimit (example_config\<lparr>LIMIT := 0\<rparr>) example_env example_ip example_world))"
  by simp

lemma upt_1_3: "[Suc 0..<3] = [Suc 0, 2]" "[Suc 0..<Suc 2] = [Suc 0, 2]"
  by (simp_all add: upt_rec)

theorem checkRateLimit_probes_in_order_witness:
  "LIMIT (example_config\<lparr>LIMIT := 0\<rparr>) \<le> 0 \<and>
   fst (checkRateLimit (example_config\<lparr>LIMIT := 0\<rparr>) example_env example_ip example_world) =
     Inr False \<and>
   snd (checkRateLimit (example_config\<lparr>LIMIT := 0\<rparr>) example_env example_ip example_world) =
     example_world\<lparr>clock_reads := 1\<rparr> \<and>
   no_faults example_env \<and>
   table example_world_2 example_key_1 \<noteq> None \<and> table example_world_2 example_key_2 \<noteq> None \<and>
   checkRateLimit example_config example_env example_ip example_world_2 =
     (Inr False, example_world_3) \<and>
   table example_world_3 = table example_world_2 \<and>
   probed example_world_2 example_world_3 = [example_key_1, example_key_2] \<and>
   table example_world_1 example_key_1 \<noteq> None \<and> table example_world_1 example_key_2 = None \<and>
   checkRateLimit example_config example_env example_ip example_world_1 =
     (Inr True, example_world_2) \<and>
   probed example_world_1 example_world_2 = [example_key_1, example_key_2]"
proof -
  have limit: "LIMIT example_config = 2" by (simp add: example_config_def)
  have zero: "LIMIT (example_config\<lparr>LIMIT := 0\<rparr>) \<le> 0" by simp
  from checkRateLimit_probes_in_order [OF example_zero_call] zero
  have a: "fst (checkRateLimit (example_config\<lparr>LIMIT := 0\<rparr>) example_env example_ip example_world) =
      Inr False \<and>
    snd (checkRateLimit (example_config\<lparr>LIMIT := 0\<rparr>) example_env example_ip example_world) =
      example_world\<lparr>clock_reads := 1\<rparr>"
    by (simp add: example_world_def)
  have t2: "table example_world_2 example_key_1 \<noteq> None" "table example_world_2 example_key_2 \<noteq> None"
    by (simp_all add: example_world_2_def)
  have t1: "table example_world_1 example_key_1 \<noteq> None" "table example_world_1 example_key_2 = None"
    by (simp_all add: example_world_1_def example_key_1_def example_key_2_def js_def)
  have all: "\<forall>i. 1 \<le> i \<and> int i \<le> LIMIT example_config \<longrightarrow>
      table example_world_2 (slot_key example_ip (hour_at example_env example_world_2) i) \<noteq> None"
  proof (intro allI impI)
    fix i :: nat assume "1 \<le> i \<and> int i \<le> LIMIT example_config"
    with limit have "i = 1 \<or> i = 2" by auto
    with t2 show "table example_world_2
        (slot_key example_ip (hour_at example_env example_world_2) i) \<noteq> None"
      by (auto simp add: example_hours example_keys)
  qed
  from checkRateLimit_probes_in_order [OF example_third_call] example_no_faults all
  have "table example_world_3 = table example_world_2 \<and>
    probed example_world_2 example_world_3 =
      map (slot_key example_ip (hour_at example_env example_world_2))
        [1..<nat (LIMIT example_config + 1)]"
    by blast
  then have b: "table example_world_3 = table example_world_2 \<and>
      probed example_world_2 example_world_3 = [example_key_1, example_key_2]"
    by (simp add: limit example_hours example_keys upt_1_3)
  have before: "\<forall>i. 1 \<le> i \<and> i < 2 \<longrightarrow>
      table example_world_1 (slot_key example_ip (hour_at example_env example_world_1) i) \<noteq> None"
  proof (intro allI impI)
    fix i :: nat assume "1 \<le> i \<and> i < 2"
    then have "i = 1" by auto
    with t1 show "table example_world_1
        (slot_key example_ip (hour_at example_env example_world_1) i) \<noteq> None"
      by (simp add: example_hours example_keys)
  qed
  have free: "table example_world_1
      (slot_key example_ip (hour_at example_env example_world_1) 2) = None"
    using t1 by (simp add: example_hours example_keys)
  have j: "1 \<le> (2::nat)" "int 2 \<le> LIMIT example_config" by (simp_all add: limit)
  from checkRateLimit_probes_in_order [OF example_second_call]
  have "no_faults example_env \<and> 1 \<le> (2::nat) \<and> int 2 \<le> LIMIT example_config \<and>
      table example_world_1 (slot_key example_ip (hour_at example_env example_world_1) 2) = None \<and>
      (\<forall>i. 1 \<le> i \<and> i < 2 \<longrightarrow>
         table example_world_1 (slot_key example_ip (hour_at example_env example_world_1) i) \<noteq> None)
      \<longrightarrow> probed example_world_1 example_world_2 =
            map (slot_key example_ip (hour_at example_env example_world_1)) [1..<Suc 2]"
    by blast
  with example_no_faults j free before
  have "probed example_world_1 example_world_2 =
      map (slot_key example_ip (hour_at example_env example_world_1)) [1..<Suc 2]"
    by blast
  then have c: "probed example_world_1 example_world_2 = [example_key_1, example_key_2]"
    by (simp add: example_hours example_keys upt_1_3 del: upt_Suc)
  from a b c zero example_no_faults t1 t2 example_third_call example_second_call
  show ?thesis by simp
qed

lemma checkRateLimit_keeps_keys:
  assumes "checkRateLimit cfg en ip w = (r, w')" and "table w k \<noteq> None"
  shows "table w' k = table w k"
proof -
  let ?w1 = "w\<lparr>clock_reads := Suc (clock_reads w)\<rparr>"
  from assms(1) have loop: "slot_loop cfg en ip (hour_at en w) 3700 1 ?w1 = (r, w')"
    by (simp add: checkRateLimit_eq)
  from slot_loop_table [OF loop] assms(2) show ?thesis by auto
qed

lemma checkRateLimit_exhausted:
  assumes "\<forall>i. 1 \<le> i \<and> int i \<le> LIMIT cfg \<longrightarrow> table w (slot_key ip (hour_at en w) i) \<noteq> None"
    and "checkRateLimit cfg en ip w = (r, w')"
  shows "r \<noteq> Inr True \<and> table w' = table w"
proof -
  let ?w1 = "w\<lparr>clock_reads := Suc (clock_reads w)\<rparr>"
  from assms(2) have loop: "slot_loop cfg en ip (hour_at en w) 3700 1 ?w1 = (r, w')"
    by (simp add: checkRateLimit_eq)
  from slot_loop_table [OF loop] assms(1) show ?thesis by auto
qed

text \<open>
  C5. In a store without faults, let a call of \<open>checkRateLimit\<close> for \<open>ip\<close> have returned
  \<open>false\<close>. Then a call for \<open>ip\<close> from any world that still holds the keys the table held
  after that call, at a time in the same window, returns \<open>false\<close> again and leaves the
  table unchanged; all slot keys of the window are still there afterwards, so the same holds
  for the call after it.
\<close>

theorem denial_is_idempotent:
  assumes nf: "no_faults en"
    and first: "checkRateLimit cfg en ip w0 = (Inr False, w1)"
    and later: "\<forall>k. table w1 k \<noteq> None \<longrightarrow> table w k \<noteq> None"
    and same: "hour_at en w = hour_at en w0"
    and run: "checkRateLimit cfg en ip w = (r, w')"
  shows "r = Inr False \<and> table w' = table w \<and>
         (\<forall>i. 1 \<le> i \<and> int i \<le> LIMIT cfg \<longrightarrow> table w' (slot_key ip (hour_at en w0) i) \<noteq> None)"
proof -
  let ?h = "hour_at en w0"
  let ?u0 = "w0\<lparr>clock_reads := Suc (clock_reads w0)\<rparr>"
  from first have loop0: "slot_loop cfg en ip ?h 3700 1 ?u0 = (Inr False, w1)"
    by (simp add: checkRateLimit_eq)
  from slot_loop_table [OF loop0] have t1: "table w1 = table w0" by simp
  have full: "table w (slot_key ip ?h i) \<noteq> None" if "1 \<le> i" "int i \<le> LIMIT cfg" for i
  proof -
    from slot_loop_denied [OF nf loop0 that] have "table w0 (slot_key ip ?h i) \<noteq> None"
      by simp
    with t1 later show ?thesis by simp
  qed
  then have all: "\<forall>i. 1 \<le> i \<and> int i \<le> LIMIT cfg \<longrightarrow>
      table w (slot_key ip (hour_at en w) i) \<noteq> None"
    by (simp add: same)
  from checkRateLimit_denies [OF run nf all]
  have "r = Inr False \<and> table w' = table w" by blast
  with full show ?thesis by simp
qed

theorem denial_is_idempotent_witness:
  "no_faults example_env \<and>
   checkRateLimit example_config example_env example_ip example_world_2 =
     (Inr False, example_world_3) \<and>
   hour_at example_env example_world_3 = hour_at example_env example_world_2 \<and>
   fst (checkRateLimit example_config example_env example_ip example_world_3) = Inr False \<and>
   table (snd (checkRateLimit example_config example_env example_ip example_world_3)) =
     table example_world_3"
proof -
  have same: "hour_at example_env example_world_3 = hour_at example_env example_world_2"
    by (simp add: example_hours)
  have later: "\<forall>k. table example_world_3 k \<noteq> None \<longrightarrow> table example_world_3 k \<noteq> None"
    by simp
  have run: "checkRateLimit example_config example_env example_ip example_world_3 =
      (fst (checkRateLimit example_config example_env example_ip example_world_3),
       snd (checkRateLimit example_config example_env example_ip example_world_3))"
    by simp
  from denial_is_idempotent [OF example_no_faults example_third_call later same run]
    example_no_faults example_third_call same
  show ?thesis by blast
qed

text \<open>
  C6. Let two worlds differ only by table entries under slot keys of windows other than the
  current one (for instance the slots created while the window before was exhausted). Then
  \<open>checkRateLimit\<close> returns the same result in both, probes the same keys, and the two
  worlds after the call again differ only in this way: the calls that follow in this window
  are not affected either.
\<close>

theorem windows_are_independent:
  assumes differ: "differ_only_in_other_windows (hour_at en w1) w1 w2"
    and run1: "checkRateLimit cfg en ip w1 = (r1, v1)"
    and run2: "checkRateLimit cfg en ip w2 = (r2, v2)"
  shows "r1 = r2 \<and> probed w1 v1 = probed w2 v2 \<and>
         differ_only_in_other_windows (hour_at en w1) v1 v2"
proof -
  let ?h = "hour_at en w1"
  let ?K = "{k. \<exists>ip' i. k = slot_key ip' ?h i}"
  let ?u1 = "w1\<lparr>clock_reads := Suc (clock_reads w1)\<rparr>"
  let ?u2 = "w2\<lparr>clock_reads := Suc (clock_reads w2)\<rparr>"
  from differ have clk: "clock_reads w1 = clock_reads w2" and log: "ddb_log w1 = ddb_log w2"
    and ses: "ses_log w1 = ses_log w2"
    and tab: "\<And>k. table w1 k \<noteq> table w2 k \<Longrightarrow> \<exists>ip' h' i. h' \<noteq> ?h \<and> k = slot_key ip' h' i"
    by (simp_all add: differ_only_in_other_windows_def)
  from clk have h: "hour_at en w2 = ?h" by (simp add: hour_at_def)
  have inK: "table w1 k = table w2 k" if "k \<in> ?K" for k
  proof (rule ccontr)
    assume "table w1 k \<noteq> table w2 k"
    from tab [OF this] obtain ip' h' i where "h' \<noteq> ?h" and k: "k = slot_key ip' h' i"
      by blast
    moreover from that obtain ip'' j where "k = slot_key ip'' ?h j" by blast
    ultimately show False using slot_key_inj [of ip' h' i ip'' ?h j] by simp
  qed
  then have agree: "agree_on ?K ?u1 ?u2"
    using clk log ses by (simp add: agree_on_def)
  from run1 have loop1: "slot_loop cfg en ip ?h 3700 1 ?u1 = (r1, v1)"
    by (simp add: checkRateLimit_eq)
  from run2 h have loop2: "slot_loop cfg en ip ?h 3700 1 ?u2 = (r2, v2)"
    by (simp add: checkRateLimit_eq)
  have K: "slot_key ip ?h j \<in> ?K" for j by blast
  from slot_loop_agree [of ip ?h ?K, OF K agree loop1 loop2]
  have r: "r1 = r2" and post: "agree_on ?K v1 v2"
    and out: "\<And>k. k \<notin> ?K \<Longrightarrow> table v1 k = table w1 k \<and> table v2 k = table w2 k"
    by simp_all
  from post log have p: "probed w1 v1 = probed w2 v2"
    by (simp add: probed_def new_cmds_def agree_on_def)
  have "\<exists>ip' h' i. h' \<noteq> ?h \<and> k = slot_key ip' h' i" if d: "table v1 k \<noteq> table v2 k" for k
  proof -
    from post d have "k \<notin> ?K" by (auto simp add: agree_on_def)
    from out [OF this] d have "table w1 k \<noteq> table w2 k" by simp
    then show ?thesis by (rule tab)
  qed
  with post have "differ_only_in_other_windows ?h v1 v2"
    by (simp add: differ_only_in_other_windows_def agree_on_def)
  with r p show ?thesis by simp
qed

lemma previous_hour_keys:
  "js ''ip#203.0.113.10#hour#473289#slot#1'' = slot_key example_ip 473289 1"
  "js ''ip#203.0.113.10#hour#473289#slot#2'' = slot_key example_ip 473289 2"
  by (simp_all add: slot_key_def Number_toString.simps digit_def example_defs js_def)

lemma previous_hour_differs:
  "differ_only_in_other_windows (hour_at example_env example_world) example_world previous_hour_world"
proof -
  have main: "\<exists>ip h' i. h' \<noteq> 473290 \<and> k = slot_key ip h' i"
    if "table example_world k \<noteq> table previous_hour_world k" for k
  proof -
    from that have "k = js ''ip#203.0.113.10#hour#473289#slot#1'' \<or>
        k = js ''ip#203.0.113.10#hour#473289#slot#2''"
      by (auto simp add: example_world_def previous_hour_world_def split: if_splits)
    then have "k = slot_key example_ip 473289 1 \<or> k = slot_key example_ip 473289 2"
      by (simp only: previous_hour_keys)
    then show ?thesis
    proof
      assume "k = slot_key example_ip 473289 1"
      then have "473289 \<noteq> (473290::nat) \<and> k = slot_key example_ip 473289 1" by simp
      then show ?thesis by (intro exI)
    next
      assume "k = slot_key example_ip 473289 2"
      then have "473289 \<noteq> (473290::nat) \<and> k = slot_key example_ip 473289 2" by simp
      then show ?thesis by (intro exI)
    qed
  qed
  show ?thesis
    unfolding differ_only_in_other_windows_def example_hours
  proof (intro conjI allI impI)
    show "clock_reads example_world = clock_reads previous_hour_world"
      and "ddb_log example_world = ddb_log previous_hour_world"
      and "ses_log example_world = ses_log previous_hour_world"
      by (simp_all add: example_world_def previous_hour_world_def)
  next
    fix k assume "table example_world k \<noteq> table previous_hour_world k"
    then show "\<exists>ip h' i. h' \<noteq> 473290 \<and> k = slot_key ip h' i" by (rule main)
  qed
qed

theorem windows_are_independent_witness:
  "differ_only_in_other_windows (hour_at example_env example_world) example_world
     previous_hour_world \<and>
   fst (checkRateLimit example_config example_env example_ip previous_hour_world) = Inr True \<and>
   probed previous_hour_world
     (snd (checkRateLimit example_config example_env example_ip previous_hour_world)) =
     probed example_world example_world_1"
proof -
  have run2: "checkRateLimit example_config example_env example_ip previous_hour_world =
      (fst (checkRateLimit example_config example_env example_ip previous_hour_world),
       snd (checkRateLimit example_config example_env example_ip previous_hour_world))"
    by simp
  from windows_are_independent [OF previous_hour_differs example_first_call run2]
    previous_hour_differs
  show ?thesis by simp
qed


section \<open>Requests without a source address\<close>




lemma ses_send_ok:
  "ses_fault en (length (ses_log w)) = None \<Longrightarrow> fst (ses_send en m w) = Inr ()"
  by (simp add: ses_send_def)







section \<open>Concurrent callers: at most \<open>LIMIT\<close> acquisitions\<close>

text \<open>
  One call run on its own reaches the result of the function: the steps are those of
  \<open>checkRateLimit\<close>.
\<close>


lemma call_steps_add:
  "call_steps cfg en (m + n) cw = call_steps cfg en n (call_steps cfg en m cw)"
  by (induction m arbitrary: cw) simp_all

lemma consume_as_steps:
  "call_steps cfg en 2 (AtLoop ip h i, w) =
     (case consume cfg en (slot_key ip h i) 3700 w of
        (Inl e, w1) \<Rightarrow> (Threw ip h e, w1)
      | (Inr True, w1) \<Rightarrow> (Returned ip h True, w1)
      | (Inr False, w1) \<Rightarrow> (AtLoop ip h (Suc i), w1))" if "int i \<le> LIMIT cfg"
  using that
  by (simp add: numeral_2_eq_2 consume_def read_clock_def Let_def
      split: prod.splits sum.splits bool.splits)

lemma slot_loop_as_steps:
  "\<exists>n. call_steps cfg en n (AtLoop ip h i, w) =
         (finished ip h (fst (slot_loop cfg en ip h 3700 i w)), snd (slot_loop cfg en ip h 3700 i w))"
proof (induction i w rule: slot_loop_induct [where cfg = cfg and en = en and ip = ip and hour = h and t = 3700])
  case (stop i w)
  then have "call_steps cfg en 1 (AtLoop ip h i, w) =
      (finished ip h (fst (slot_loop cfg en ip h 3700 i w)), snd (slot_loop cfg en ip h 3700 i w))"
    by (simp add: slot_loop_stop)
  then show ?case ..
next
  case (step i w)
  obtain r w1 where c: "consume cfg en (slot_key ip h i) 3700 w = (r, w1)"
    by (cases "consume cfg en (slot_key ip h i) 3700 w") blast
  show ?case
  proof (cases "r = Inr False")
    case True
    with c have c': "consume cfg en (slot_key ip h i) 3700 w = (Inr False, w1)" by simp
    from step.IH [OF c'] obtain n where
      n: "call_steps cfg en n (AtLoop ip h (Suc i), w1) =
        (finished ip h (fst (slot_loop cfg en ip h 3700 (Suc i) w1)),
         snd (slot_loop cfg en ip h 3700 (Suc i) w1))"
      by blast
    from step.hyps c' have "slot_loop cfg en ip h 3700 i w = slot_loop cfg en ip h 3700 (Suc i) w1"
      by (simp add: slot_loop_step)
    with n consume_as_steps [OF step.hyps, of en ip h w] c'
    have "call_steps cfg en (2 + n) (AtLoop ip h i, w) =
        (finished ip h (fst (slot_loop cfg en ip h 3700 i w)), snd (slot_loop cfg en ip h 3700 i w))"
      by (simp only: call_steps_add) simp
    then show ?thesis ..
  next
    case False
    with c step.hyps have "slot_loop cfg en ip h 3700 i w = (r, w1)"
      by (auto simp add: slot_loop_step split: sum.splits bool.splits)
    with False c consume_as_steps [OF step.hyps, of en ip h w]
    have "call_steps cfg en 2 (AtLoop ip h i, w) =
        (finished ip h (fst (slot_loop cfg en ip h 3700 i w)), snd (slot_loop cfg en ip h 3700 i w))"
      by (auto split: sum.splits bool.splits)
    then show ?thesis ..
  qed
qed

lemma checkRateLimit_as_steps:
  "\<exists>n. call_steps cfg en n (Called ip, w) =
         (finished ip (hour_at en w) (fst (checkRateLimit cfg en ip w)),
          snd (checkRateLimit cfg en ip w))"
proof -
  let ?w1 = "w\<lparr>clock_reads := Suc (clock_reads w)\<rparr>"
  from slot_loop_as_steps [of cfg en ip "hour_at en w" 1 ?w1] obtain n where
    "call_steps cfg en n (AtLoop ip (hour_at en w) 1, ?w1) =
       (finished ip (hour_at en w) (fst (checkRateLimit cfg en ip w)),
        snd (checkRateLimit cfg en ip w))"
    by (auto simp add: checkRateLimit_eq)
  then have "call_steps cfg en (Suc n) (Called ip, w) =
       (finished ip (hour_at en w) (fst (checkRateLimit cfg en ip w)),
        snd (checkRateLimit cfg en ip w))"
    by (simp add: read_clock_def hour_at_def)
  then show ?thesis ..
qed














text \<open>
  The bound is reached: of three racing calls with \<open>LIMIT = 2\<close>, two return \<open>true\<close> and
  one returns \<open>false\<close>.
\<close>

lemma example_race:
  "fst (run_pool example_config example_env race_schedule
          ([Called example_ip, Called example_ip, Called example_ip], example_world)) =
     [Returned example_ip 473290 True, Returned example_ip 473290 True,
      Returned example_ip 473290 False]"
  by (simp add: run_pool_def pool_step_def race_schedule_def read_clock_def ddb_send_def
      slot_key_def Number_toString.simps digit_def example_defs js_def)

end
